theory Spec2Isabelle
  imports Complex_Main "HOL-Library.Sublist"
begin

text \<open>
  A shallow embedding of the price resolution of Cron-Price-Fetcher: the normalizer, the
  batch functions of the three vendor adapters with the network as a parameter, the cache
  as a read-only store, the pipeline \<open>fetchAllPrices\<close> that tries cache, Dexscreener,
  CoinGecko and CMC in turn, and the summary of a run. Asynchronous code is modelled in
  the order in which it awaits; waiting times are left out. The maps of the adapters are
  plain JavaScript objects and are modelled as such, with the properties they inherit; an
  exception thrown is a result of its own. Definitions come first, then the properties,
  numbered as the claims they settle.
\<close>

section \<open>Strings and the functions of the platform\<close>

text \<open>
  A string is the list of its code units. \<open>String.prototype.toLowerCase\<close>,
  \<open>String.prototype.trim\<close> and \<open>Number\<close> on a string are functions of the platform, not of
  this repository: they are the fields of a parameter \<open>P\<close>, and every property below that
  has a \<open>P\<close> holds whatever these functions are. \<open>toNumber\<close> gives \<open>None\<close> where
  \<open>Number\<close> gives \<open>NaN\<close> or an infinity.
\<close>

record platform =
  toLowerCase :: "string \<Rightarrow> string"
  trim :: "string \<Rightarrow> string"
  toNumber :: "string \<Rightarrow> real option"

text \<open>
  The examples run on \<open>asciiPlatform\<close>. It agrees with the functions of JavaScript on the
  strings the examples use: \<open>toLowerCase\<close> and \<open>trim\<close> on ASCII strings (the letters A to Z
  are folded by setting bit 5; the white space is the blank and the characters 9 to 13),
  \<open>Number\<close> on the empty string and on strings of decimal digits.
\<close>

definition asciiLowerChar :: "char \<Rightarrow> char" where
  "asciiLowerChar c =
     (if (65::nat) \<le> of_char c \<and> of_char c \<le> (90::nat)
      then (case c of Char b0 b1 b2 b3 b4 b5 b6 b7 \<Rightarrow> Char b0 b1 b2 b3 b4 True b6 b7)
      else c)"

definition asciiLower :: "string \<Rightarrow> string" where
  "asciiLower s = map asciiLowerChar s"

definition asciiSpace :: "char \<Rightarrow> bool" where
  "asciiSpace c = (of_char c = (32::nat) \<or> ((9::nat) \<le> of_char c \<and> of_char c \<le> (13::nat)))"

definition asciiTrim :: "string \<Rightarrow> string" where
  "asciiTrim s = rev (dropWhile asciiSpace (rev (dropWhile asciiSpace s)))"

definition isDigit :: "char \<Rightarrow> bool" where
  "isDigit c = ((48::nat) \<le> of_char c \<and> of_char c \<le> (57::nat))"

definition decimalNumber :: "string \<Rightarrow> real option" where
  "decimalNumber s =
     (if list_all isDigit s
      then Some (real (foldl (\<lambda>n c. 10 * n + (of_char c - 48)) (0::nat) s))
      else None)"

definition asciiPlatform :: platform where
  "asciiPlatform = \<lparr> toLowerCase = asciiLower, trim = asciiTrim, toNumber = decimalNumber \<rparr>"

section \<open>Data model (types.ts)\<close>

text \<open>
  A JavaScript \<open>number\<close> read from JSON is a real. The \<open>priceUsd\<close> of a Dexscreener pair is
  a number or a string. The \<open>priceUsd\<close> of a result is \<open>None\<close> for \<open>null\<close>; otherwise it is
  whatever value the pipeline put there: a number, the value \<open>NotFinite\<close> that \<open>Number\<close>
  makes of a string it cannot read, or, when a lookup in a map found a property that every
  object inherits, the value of that property, named by its key. Of \<open>SheetTokenRow\<close> and
  \<open>DexPair\<close> only the fields read by the pipeline and the adapter are kept, nested fields
  under one name (\<open>liquidity_usd\<close> for \<open>liquidity?.usd\<close>). A result's \<open>at\<close> field is called
  \<open>at_iso\<close>.
\<close>

datatype source = Dexscreener | Coingecko | Cmc

datatype raw_price = RawNum real | RawStr string

datatype price = Num real | NotFinite | Inherited string

record DexPair =
  priceUsd :: "raw_price option"
  liquidity_usd :: "real option"
  fdv :: "real option"
  marketCap :: "real option"
  volume_h24 :: "real option"
  baseToken_address :: "string option"
  quoteToken_address :: "string option"

record SheetTokenRow =
  chain :: string
  contract_address :: string
  symbol :: "string option"
  coingecko_id :: "string option"
  cmc_slug :: "string option"

record PriceResult =
  chain :: string
  address :: string
  symbol :: "string option"
  priceUsd :: "price option"
  source :: "source option"
  at_iso :: string

section \<open>Normalizer (core/normalize.ts)\<close>

text \<open>
  The clock reading \<open>new Date().toISOString()\<close> is the parameter \<open>now\<close>; a run of the
  pipeline is given one reading for all the records it makes.
\<close>

definition toPriceResult ::
  "platform \<Rightarrow> string \<Rightarrow> string \<Rightarrow> string \<Rightarrow> price option \<Rightarrow> source option \<Rightarrow> string option
     \<Rightarrow> PriceResult" where
  "toPriceResult P now chain' address' priceUsd' source' symbol' =
     \<lparr> chain = chain',
       address = toLowerCase P address',
       symbol = symbol',
       priceUsd = priceUsd',
       source = (if priceUsd' = None then None else source'),
       at_iso = now \<rparr>"

section \<open>Run summary (server)\<close>

record bySource =
  dexscreener :: int
  coingecko :: int
  cmc :: int

record totals =
  total :: int
  withPrice :: int
  nulls :: int

record summary =
  totals :: totals
  bySource :: bySource

text \<open>One iteration of the loop of \<open>summarize\<close>, on the pair of its two mutable variables.\<close>

definition summarizeStep :: "PriceResult \<Rightarrow> bySource \<times> int \<Rightarrow> bySource \<times> int" where
  "summarizeStep p st =
     (case st of (bs, wp) \<Rightarrow>
        if priceUsd p \<noteq> None then
          (if source p = Some Dexscreener then bs\<lparr>dexscreener := dexscreener bs + 1\<rparr>
           else if source p = Some Coingecko then bs\<lparr>coingecko := coingecko bs + 1\<rparr>
           else if source p = Some Cmc then bs\<lparr>cmc := cmc bs + 1\<rparr>
           else bs,
           wp + 1)
        else (bs, wp))"

definition summarize :: "PriceResult list \<Rightarrow> summary" where
  "summarize prices =
     (case fold summarizeStep prices (\<lparr>dexscreener = 0, coingecko = 0, cmc = 0\<rparr>, 0) of
        (bs, wp) \<Rightarrow>
          \<lparr> totals = \<lparr> total = int (length prices), withPrice = wp,
                       nulls = int (length prices) - wp \<rparr>,
            bySource = bs \<rparr>)"

section \<open>Dexscreener adapter: pair selection (vendors/dexscreener.ts)\<close>

text \<open>
  \<open>x || y\<close> on an optional number: \<open>y\<close> when \<open>x\<close> is missing or zero.
\<close>

definition orElse :: "real option \<Rightarrow> real \<Rightarrow> real" where
  "orElse x y = (case x of None \<Rightarrow> y | Some v \<Rightarrow> if v = 0 then y else v)"

text \<open>The comparator handed to \<open>sort\<close>: negative when \<open>a\<close> goes before \<open>b\<close>.\<close>

definition comparePairs :: "DexPair \<Rightarrow> DexPair \<Rightarrow> real" where
  "comparePairs a b =
     (let liqA = orElse (liquidity_usd a) 0; liqB = orElse (liquidity_usd b) 0 in
      if liqB \<noteq> liqA then liqB - liqA
      else
        let volA = orElse (volume_h24 a) 0; volB = orElse (volume_h24 b) 0 in
        if volB \<noteq> volA then volB - volA
        else
          let capA = orElse (marketCap a) (orElse (fdv a) 0);
              capB = orElse (marketCap b) (orElse (fdv b) 0)
          in capB - capA)"

text \<open>
  \<open>Array.prototype.sort\<close> is stable: it is modelled by insertion from the right, where an
  element goes in front of the first one it does not compare greater than.
\<close>

fun insertBy :: "('a \<Rightarrow> 'a \<Rightarrow> real) \<Rightarrow> 'a \<Rightarrow> 'a list \<Rightarrow> 'a list" where
  "insertBy cmp x [] = [x]"
| "insertBy cmp x (y # ys) = (if cmp x y \<le> 0 then x # y # ys else y # insertBy cmp x ys)"

definition sortBy :: "('a \<Rightarrow> 'a \<Rightarrow> real) \<Rightarrow> 'a list \<Rightarrow> 'a list" where
  "sortBy cmp xs = foldr (insertBy cmp) xs []"

definition pickBestPair :: "DexPair list \<Rightarrow> DexPair option" where
  "pickBestPair pairs =
     (let candidates = filter (\<lambda>p. DexPair.priceUsd p \<noteq> None) pairs in
      if candidates = [] then None else Some (hd (sortBy comparePairs candidates)))"

section \<open>Plain objects used as maps\<close>

text \<open>
  A \<open>Record<string, number | null>\<close> is a plain object: it has the keys that were assigned
  to it and, unless its prototype was removed, the properties every object inherits.
  \<open>own\<close> binds an assigned key to \<open>None\<close> for \<open>null\<close> (or \<open>undefined\<close>) and to its value
  otherwise. \<open>jsIn\<close> is the operator \<open>in\<close>, \<open>jsGet\<close> the read \<open>o[k]\<close> (\<open>None\<close> when the
  value is \<open>null\<close> or \<open>undefined\<close>), \<open>jsSet\<close> the assignment \<open>o[k] = v\<close>: assigning \<open>null\<close>
  to \<open>__proto__\<close> removes the prototype and makes no key of its own, assigning a number to
  it does nothing, and once the prototype is gone \<open>__proto__\<close> is a key like any other.
  (The value \<open>None\<close> given to \<open>jsSet\<close> is \<open>null\<close>; the code assigns \<open>undefined\<close> only to a
  key of an object whose prototype is gone, where the two do the same.)
\<close>

definition protoKeys :: "string set" where
  "protoKeys = {''constructor'', ''__defineGetter__'', ''__defineSetter__'', ''hasOwnProperty'',
                ''__lookupGetter__'', ''__lookupSetter__'', ''isPrototypeOf'',
                ''propertyIsEnumerable'', ''toString'', ''valueOf'', ''__proto__'',
                ''toLocaleString''}"

record jsmap =
  own :: "string \<rightharpoonup> price option"
  inherits :: bool

definition emptyObject :: jsmap where
  "emptyObject = \<lparr> own = Map.empty, inherits = True \<rparr>"

definition jsIn :: "jsmap \<Rightarrow> string \<Rightarrow> bool" where
  "jsIn o' k = (own o' k \<noteq> None \<or> (inherits o' \<and> k \<in> protoKeys))"

definition jsGet :: "jsmap \<Rightarrow> string \<Rightarrow> price option" where
  "jsGet o' k =
     (case own o' k of
        Some v \<Rightarrow> v
      | None \<Rightarrow> if inherits o' \<and> k \<in> protoKeys then Some (Inherited k) else None)"

definition jsSet :: "jsmap \<Rightarrow> string \<Rightarrow> price option \<Rightarrow> jsmap" where
  "jsSet o' k v =
     (if k = ''__proto__'' \<and> inherits o'
      then (case v of None \<Rightarrow> o'\<lparr>inherits := False\<rparr> | Some x \<Rightarrow> o')
      else o'\<lparr>own := (own o')(k \<mapsto> v)\<rparr>)"

section \<open>Upstream providers\<close>

text \<open>
  The network is a parameter: a record of functions that give, for a request and the number
  of the attempt, what the provider answers. A request that fails gives an error. The
  Dexscreener endpoints answer with the list \<open>pairs\<close> of the response (empty when the field
  is missing). The CoinGecko endpoint answers with the function that gives, for an id, the
  value of \<open>data?.[id]?.usd\<close> in the response, where it is not \<open>null\<close> or \<open>undefined\<close>.
  \<open>cmcPriceBySlug\<close> is \<open>fetchCmcPriceBySlug\<close>, which catches every error of its requests
  and returns a finite number or \<open>null\<close>.
\<close>

datatype js_error = RequestFailed | TypeError

record upstream =
  dexTokensBatch :: "string list \<Rightarrow> nat \<Rightarrow> js_error + DexPair list"
  dexTokensSingle :: "string \<Rightarrow> nat \<Rightarrow> js_error + DexPair list"
  coingeckoSimplePrice :: "string list \<Rightarrow> nat \<Rightarrow> js_error + (string \<rightharpoonup> raw_price)"
  cmcPriceBySlug :: "string \<Rightarrow> real option"

text \<open>
  One entry of an adapter's log per retried call: a grouped Dexscreener request with the
  addresses it carries, a single-address Dexscreener lookup, a CoinGecko request with its ids,
  a CMC slug lookup.
\<close>

datatype upstream_call =
    DexBatchGet "string list"
  | DexSingleGet string
  | CoingeckoGet "string list"
  | CmcLookup string

text \<open>
  \<open>pRetry run {retries}\<close>: the first attempt and up to \<open>retries\<close> more; the first success
  is the result, and the error of the failed requests is thrown when all of them fail. A
  \<open>TypeError\<close> that is not a network error is not retried: it is thrown at once.
\<close>

fun pRetry :: "(nat \<Rightarrow> js_error + 'a) \<Rightarrow> nat \<Rightarrow> js_error + 'a" where
  "pRetry run 0 = run 0"
| "pRetry run (Suc n) =
     (case run 0 of
        Inr v \<Rightarrow> Inr v
      | Inl TypeError \<Rightarrow> Inl TypeError
      | Inl RequestFailed \<Rightarrow> pRetry (\<lambda>k. run (Suc k)) n)"

section \<open>Dexscreener adapter: batch resolution (vendors/dexscreener.ts)\<close>

text \<open>\<open>Number(x)\<close> on the price of a pair.\<close>

definition numberOf :: "platform \<Rightarrow> raw_price \<Rightarrow> price" where
  "numberOf P x =
     (case x of
        RawNum r \<Rightarrow> Num r
      | RawStr s \<Rightarrow> (case toNumber P s of Some r \<Rightarrow> Num r | None \<Rightarrow> NotFinite))"

text \<open>
  \<open>fetchDexscreenerPrice\<close>, three attempts of its own starting at attempt \<open>base\<close>: the price
  of the best pair as a finite number, and \<open>null\<close> when there is no such pair or its price
  is falsy (the number zero, the empty string) or not a finite number.
\<close>

definition fetchDexscreenerPrice ::
  "platform \<Rightarrow> upstream \<Rightarrow> nat \<Rightarrow> string \<Rightarrow> js_error + real option" where
  "fetchDexscreenerPrice P w base address' =
     pRetry (\<lambda>k. case dexTokensSingle w address' (base + k) of
                    Inl e \<Rightarrow> Inl e
                  | Inr pairs \<Rightarrow>
                      Inr (case pickBestPair pairs of
                             None \<Rightarrow> None
                           | Some best \<Rightarrow>
                               (case DexPair.priceUsd best of
                                  None \<Rightarrow> None
                                | Some (RawNum n) \<Rightarrow> if n = 0 then None else Some n
                                | Some (RawStr s) \<Rightarrow> if s = [] then None else toNumber P s))) 2"

text \<open>A requested address: the trimmed original and its lower-case key.\<close>

type_synonym dex_req = "string \<times> string"

definition dexRequests :: "platform \<Rightarrow> string list \<Rightarrow> dex_req list" where
  "dexRequests P addresses =
     filter (\<lambda>x. fst x \<noteq> []) (map (\<lambda>a. (trim P a, toLowerCase P (trim P a))) addresses)"

definition dexUniq :: "dex_req list \<Rightarrow> dex_req list" where
  "dexUniq req =
     snd (fold (\<lambda>r (seen, uniq). if snd r \<in> seen then (seen, uniq)
                                  else (insert (snd r) seen, uniq @ [r]))
            req ({}, []))"

text \<open>\<open>for (const k of keys) out[k] = null\<close> on a new object.\<close>

definition prefill :: "string list \<Rightarrow> jsmap" where
  "prefill keys = fold (\<lambda>k out. jsSet out k None) keys emptyObject"

text \<open>
  Grouping the pairs of a response under the requested keys of their two tokens. \<open>grouped\<close>
  is a plain object: \<open>(grouped[k] ||= []).push(p)\<close> appends to the array \<open>grouped\<close> has
  under \<open>k\<close>, makes one when \<open>k\<close> is neither a key of its own nor inherited, and throws
  when \<open>k\<close> is inherited, the inherited value being truthy and without \<open>push\<close>. The map holds
  the keys of its own.
\<close>

definition addrKey :: "platform \<Rightarrow> string option \<Rightarrow> string" where
  "addrKey P a = toLowerCase P (case a of None \<Rightarrow> [] | Some s \<Rightarrow> s)"

definition pushPair ::
  "string \<Rightarrow> DexPair \<Rightarrow> (string \<rightharpoonup> DexPair list) \<Rightarrow> js_error + (string \<rightharpoonup> DexPair list)" where
  "pushPair k p grouped =
     (case grouped k of
        Some ps \<Rightarrow> Inr (grouped(k \<mapsto> ps @ [p]))
      | None \<Rightarrow> if k \<in> protoKeys then Inl TypeError else Inr (grouped(k \<mapsto> [p])))"

definition groupStep ::
  "platform \<Rightarrow> string set \<Rightarrow> DexPair \<Rightarrow> js_error + (string \<rightharpoonup> DexPair list)
     \<Rightarrow> js_error + (string \<rightharpoonup> DexPair list)" where
  "groupStep P setReq p acc =
     (case acc of
        Inl e \<Rightarrow> Inl e
      | Inr grouped \<Rightarrow>
          let bKey = addrKey P (baseToken_address p);
              qKey = addrKey P (quoteToken_address p)
          in case (if bKey \<in> setReq then pushPair bKey p grouped else Inr grouped) of
               Inl e \<Rightarrow> Inl e
             | Inr g1 \<Rightarrow> if qKey \<in> setReq then pushPair qKey p g1 else Inr g1)"

definition groupPairs ::
  "platform \<Rightarrow> string set \<Rightarrow> DexPair list \<Rightarrow> js_error + (string \<rightharpoonup> DexPair list)" where
  "groupPairs P setReq pairs = fold (groupStep P setReq) pairs (Inr Map.empty)"

text \<open>
  \<open>best = grouped[c.key] ? pickBestPair(grouped[c.key]) : null\<close> and the assignment of its
  price: an inherited \<open>grouped[c.key]\<close> is truthy and \<open>pickBestPair\<close> throws on it, as it
  has no \<open>filter\<close>.
\<close>

definition assignStep ::
  "platform \<Rightarrow> (string \<rightharpoonup> DexPair list) \<Rightarrow> dex_req \<Rightarrow> js_error + jsmap \<Rightarrow> js_error + jsmap" where
  "assignStep P grouped c acc =
     (case acc of
        Inl e \<Rightarrow> Inl e
      | Inr out \<Rightarrow>
          (case grouped (snd c) of
             Some ps \<Rightarrow>
               Inr (jsSet out (snd c)
                      (case pickBestPair ps of
                         None \<Rightarrow> None
                       | Some best \<Rightarrow> map_option (numberOf P) (DexPair.priceUsd best)))
           | None \<Rightarrow>
               if snd c \<in> protoKeys then Inl TypeError else Inr (jsSet out (snd c) None)))"

definition assignBest ::
  "platform \<Rightarrow> (string \<rightharpoonup> DexPair list) \<Rightarrow> dex_req list \<Rightarrow> jsmap \<Rightarrow> js_error + jsmap" where
  "assignBest P grouped chunk out = fold (assignStep P grouped) chunk (Inr out)"

text \<open>The per-address fallback over a chunk; an error of a lookup is caught and ignored.\<close>

definition dexFallback ::
  "platform \<Rightarrow> upstream \<Rightarrow> nat \<Rightarrow> dex_req list \<Rightarrow> jsmap \<times> upstream_call list
     \<Rightarrow> jsmap \<times> upstream_call list" where
  "dexFallback P w retries chunk st =
     fold (\<lambda>c (out, calls).
             (case pRetry (\<lambda>j. fetchDexscreenerPrice P w (3 * j) (fst c)) retries of
                Inr (Some price) \<Rightarrow> jsSet out (snd c) (Some (Num price))
              | _ \<Rightarrow> out,
              calls @ [DexSingleGet (fst c)]))
          chunk st"

definition dexBatchSize :: "int option \<Rightarrow> nat" where
  "dexBatchSize batchSizeOpt =
     nat (max 1 (min 30 (case batchSizeOpt of None \<Rightarrow> 30 | Some b \<Rightarrow> b)))"

definition retriesOf :: "nat option \<Rightarrow> nat" where
  "retriesOf retriesOpt = (case retriesOpt of None \<Rightarrow> 2 | Some r \<Rightarrow> r)"

text \<open>
  The body of the loop after a grouped request has answered with \<open>pairs\<close>: group, assign
  the best pair's price to every key of the chunk, and fall back to single lookups when the
  response was empty or no key of the chunk got a value.
\<close>

definition dexProcessChunk ::
  "platform \<Rightarrow> upstream \<Rightarrow> nat \<Rightarrow> dex_req list \<Rightarrow> DexPair list \<Rightarrow> jsmap \<times> upstream_call list
     \<Rightarrow> js_error + jsmap \<times> upstream_call list" where
  "dexProcessChunk P w retries chunk pairs st =
     (case st of (out, calls1) \<Rightarrow>
        case groupPairs P (set (map snd chunk)) pairs of
          Inl e \<Rightarrow> Inl e
        | Inr grouped \<Rightarrow>
            (case assignBest P grouped chunk out of
               Inl e \<Rightarrow> Inl e
             | Inr out1 \<Rightarrow>
                 Inr (if pairs = [] \<or> (\<forall>c \<in> set chunk. jsGet out1 (snd c) = None)
                      then dexFallback P w retries chunk (out1, calls1)
                      else (out1, calls1))))"

text \<open>
  The loop over the sub-batches, on its variables \<open>i\<close> and \<open>out\<close> and the log. Neither the
  grouped request nor the grouping is guarded: when all attempts of the request fail, or
  the grouping throws, the error leaves the function.
\<close>

function dexLoop ::
  "platform \<Rightarrow> upstream \<Rightarrow> int option \<Rightarrow> nat option \<Rightarrow> dex_req list \<Rightarrow> nat \<Rightarrow> jsmap
     \<Rightarrow> upstream_call list \<Rightarrow> (js_error + jsmap) \<times> upstream_call list" where
  "dexLoop P w batchSizeOpt retriesOpt uniq i out calls =
     (if i < length uniq then
        let chunk = take (dexBatchSize batchSizeOpt) (drop i uniq);
            calls1 = calls @ [DexBatchGet (map fst chunk)]
        in case pRetry (dexTokensBatch w (map fst chunk)) (retriesOf retriesOpt) of
             Inl e \<Rightarrow> (Inl e, calls1)
           | Inr pairs \<Rightarrow>
               (case dexProcessChunk P w (retriesOf retriesOpt) chunk pairs (out, calls1) of
                  Inl e \<Rightarrow> (Inl e, calls1)
                | Inr (out2, calls2) \<Rightarrow>
                    dexLoop P w batchSizeOpt retriesOpt uniq (i + dexBatchSize batchSizeOpt)
                      out2 calls2)
      else (Inr out, calls))"
  by pat_completeness auto
termination
  by (relation "measure (\<lambda>(P, w, b, r, uniq, i, out, calls). length uniq - i)")
     (auto simp: dexBatchSize_def)

declare dexLoop.simps [simp del]

definition fetchDexscreenerBatchByTokens ::
  "platform \<Rightarrow> upstream \<Rightarrow> string list \<Rightarrow> int option \<Rightarrow> nat option
     \<Rightarrow> (js_error + jsmap) \<times> upstream_call list" where
  "fetchDexscreenerBatchByTokens P w addresses batchSizeOpt retriesOpt =
     (let uniq = dexUniq (dexRequests P addresses)
      in dexLoop P w batchSizeOpt retriesOpt uniq 0 (prefill (map snd uniq)) [])"

section \<open>CoinGecko adapter (vendors/coingecko.ts)\<close>

text \<open>
  \<open>chunk\<close> is the loop of the source on its variables \<open>i\<close> and \<open>out\<close>; with \<open>size = 0\<close> it
  does not return, which is the value \<open>None\<close>.
\<close>

partial_function (option) chunkLoop :: "'a list \<Rightarrow> nat \<Rightarrow> nat \<Rightarrow> 'a list list \<Rightarrow> 'a list list option" where
  "chunkLoop arr size' i out =
     (if i < length arr then chunkLoop arr size' (i + size') (out @ [take size' (drop i arr)])
      else Some out)"

definition chunk :: "'a list \<Rightarrow> nat \<Rightarrow> 'a list list option" where
  "chunk arr size' = chunkLoop arr size' 0 []"

text \<open>\<open>Array.from(new Set(xs))\<close>: the first occurrences, in order.\<close>

definition uniqueInOrder :: "string list \<Rightarrow> string list" where
  "uniqueInOrder xs = fold (\<lambda>x acc. if x \<in> set acc then acc else acc @ [x]) xs []"

definition slugKeys :: "platform \<Rightarrow> string list \<Rightarrow> string list" where
  "slugKeys P ids = uniqueInOrder (filter (\<lambda>s. s \<noteq> []) (map (toLowerCase P) ids))"

text \<open>
  One request and the loop over its ids: \<open>out[id] = v != null ? Number(v) : out[id]\<close>. A
  request whose attempts all fail is caught and reads as an empty response.
\<close>

definition coingeckoPart ::
  "platform \<Rightarrow> upstream \<Rightarrow> nat \<Rightarrow> string list \<Rightarrow> jsmap \<times> upstream_call list
     \<Rightarrow> jsmap \<times> upstream_call list" where
  "coingeckoPart P w retries part st =
     (case st of (out, calls) \<Rightarrow>
        let data = (case pRetry (coingeckoSimplePrice w part) retries of
                      Inl e \<Rightarrow> Map.empty
                    | Inr d \<Rightarrow> d)
        in (fold (\<lambda>id' out. jsSet out id' (case data id' of
                                              Some v \<Rightarrow> Some (numberOf P v)
                                            | None \<Rightarrow> jsGet out id'))
              part out,
            calls @ [CoingeckoGet part]))"

definition coingeckoBatchSize :: "int option \<Rightarrow> nat" where
  "coingeckoBatchSize batchSizeOpt =
     nat (max 1 (min 250 (case batchSizeOpt of None \<Rightarrow> 150 | Some b \<Rightarrow> b)))"

definition fetchCoingeckoBatchByIds ::
  "platform \<Rightarrow> upstream \<Rightarrow> string list \<Rightarrow> int option \<Rightarrow> nat option
     \<Rightarrow> (jsmap \<times> upstream_call list) option" where
  "fetchCoingeckoBatchByIds P w ids batchSizeOpt retriesOpt =
     (let batchSize = coingeckoBatchSize batchSizeOpt;
          retries = retriesOf retriesOpt;
          uniq = slugKeys P ids
      in case chunk uniq batchSize of
           None \<Rightarrow> None
         | Some parts \<Rightarrow> Some (fold (coingeckoPart P w retries) parts (prefill uniq, [])))"

section \<open>CMC adapter (vendors/cmc.ts)\<close>

text \<open>
  The lookups of one round run concurrently in the source; they are independent, and the
  log lists them in the order of the round's slugs.
\<close>

definition cmcConcurrency :: "int option \<Rightarrow> nat" where
  "cmcConcurrency concurrencyOpt =
     nat (max 1 (min 10 (case concurrencyOpt of None \<Rightarrow> 4 | Some c \<Rightarrow> c)))"

function cmcLoop ::
  "upstream \<Rightarrow> int option \<Rightarrow> string list \<Rightarrow> nat \<Rightarrow> jsmap \<Rightarrow> upstream_call list
     \<Rightarrow> jsmap \<times> upstream_call list" where
  "cmcLoop w concurrencyOpt uniq i out calls =
     (if i < length uniq then
        let part = take (cmcConcurrency concurrencyOpt) (drop i uniq);
            results = map (cmcPriceBySlug w) part
        in cmcLoop w concurrencyOpt uniq (i + cmcConcurrency concurrencyOpt)
             (fold (\<lambda>j out. jsSet out (part ! j) (map_option Num (results ! j)))
                [0..<length part] out)
             (calls @ map CmcLookup part)
      else (out, calls))"
  by pat_completeness auto
termination
  by (relation "measure (\<lambda>(w, c, uniq, i, out, calls). length uniq - i)")
     (auto simp: cmcConcurrency_def)

declare cmcLoop.simps [simp del]

definition fetchCmcBatchBySlugs ::
  "platform \<Rightarrow> upstream \<Rightarrow> string list \<Rightarrow> int option \<Rightarrow> jsmap \<times> upstream_call list" where
  "fetchCmcBatchBySlugs P w slugs concurrencyOpt =
     (let uniq = slugKeys P slugs in cmcLoop w concurrencyOpt uniq 0 (prefill uniq) [])"

section \<open>Result cache (storage.ts)\<close>

text \<open>
  The cache is read only: \<open>cacheGet\<close> is a lookup in the store's content at the start of
  the run. A disabled cache, a failed read and a missing key all give \<open>None\<close>.
\<close>

type_synonym cache = "string \<rightharpoonup> PriceResult"

definition cacheKey :: "platform \<Rightarrow> string \<Rightarrow> string \<Rightarrow> string" where
  "cacheKey P chain' address' = ''price:'' @ chain' @ '':'' @ toLowerCase P address'"

section \<open>Resolution pipeline (core/fetchPrice.ts)\<close>

text \<open>
  The three batch functions are parameters of the pipeline: each takes its key list and
  returns its map, or \<open>None\<close> when the call fails as a whole. The pipeline returns, with the
  result array, the adapter calls it made, in order. A slot of the array that was never
  assigned is \<open>None\<close>.
\<close>

record adapters =
  dexscreenerBatch :: "string list \<Rightarrow> jsmap option"
  coingeckoBatch :: "string list \<Rightarrow> jsmap option"
  cmcBatch :: "string list \<Rightarrow> jsmap option"

datatype adapter_call =
    DexscreenerCall "string list"
  | CoingeckoCall "string list"
  | CmcCall "string list"

text \<open>The adapters of the vendor modules, with the options the pipeline passes.\<close>

definition vendorAdapters :: "platform \<Rightarrow> upstream \<Rightarrow> adapters" where
  "vendorAdapters P w =
     \<lparr> dexscreenerBatch =
         (\<lambda>addresses. case fst (fetchDexscreenerBatchByTokens P w addresses (Some 30) (Some 2)) of
                         Inl e \<Rightarrow> None
                       | Inr m \<Rightarrow> Some m),
       coingeckoBatch =
         (\<lambda>ids. map_option fst (fetchCoingeckoBatchByIds P w ids (Some 150) (Some 2))),
       cmcBatch = (\<lambda>slugs. Some (fst (fetchCmcBatchBySlugs P w slugs (Some 4)))) \<rparr>"

text \<open>\<open>.catch(() => ({}))\<close> on an adapter call: a new object, which has its prototype.\<close>

definition orEmpty :: "jsmap option \<Rightarrow> jsmap" where
  "orEmpty r = (case r of None \<Rightarrow> emptyObject | Some m \<Rightarrow> m)"

text \<open>Step 0: the cache pass, on \<open>results\<close> and \<open>needFetchIdx\<close>.\<close>

definition cachePass ::
  "platform \<Rightarrow> cache \<Rightarrow> SheetTokenRow list \<Rightarrow> PriceResult option list \<times> nat list" where
  "cachePass P cache tokens =
     fold (\<lambda>i (results, needFetchIdx).
             let t = tokens ! i in
             case cache (cacheKey P (SheetTokenRow.chain t) (contract_address t)) of
               Some c \<Rightarrow> (results[i := Some c], needFetchIdx)
             | None \<Rightarrow> (results, needFetchIdx @ [i]))
          [0..<length tokens] (replicate (length tokens) None, [])"

text \<open>
  \<open>applyMap\<close>: \<open>key in map && map[key] != null\<close> holds for a key of the map's own with a
  value and for a key the map inherits, and the value read goes into the result as its
  price.
\<close>

definition applyMap ::
  "platform \<Rightarrow> string \<Rightarrow> SheetTokenRow list \<Rightarrow> nat list \<Rightarrow> jsmap \<Rightarrow> source option
     \<Rightarrow> PriceResult option list \<Rightarrow> PriceResult option list" where
  "applyMap P now tokens needFetchIdx map' source' results =
     fold (\<lambda>i results.
             if results ! i \<noteq> None then results
             else
               let t = tokens ! i; key = toLowerCase P (contract_address t) in
               if jsIn map' key \<and> jsGet map' key \<noteq> None
               then results[i := Some (toPriceResult P now (SheetTokenRow.chain t)
                                         (contract_address t) (jsGet map' key) source'
                                         (SheetTokenRow.symbol t))]
               else results)
          needFetchIdx results"

text \<open>
  Steps 2 and 3 build their key list with the same loop, over \<open>coingecko_id\<close> and over
  \<open>cmc_slug\<close>, and write the answers back with the same loop; \<open>slugOf\<close> is the field read.
  The write-back loop runs over \<open>idxForId\<close>, which holds only indices whose token has the
  slug.
\<close>

definition pendingSlugs ::
  "platform \<Rightarrow> (SheetTokenRow \<Rightarrow> string option) \<Rightarrow> SheetTokenRow list \<Rightarrow> nat list
     \<Rightarrow> PriceResult option list \<Rightarrow> string list \<times> nat list" where
  "pendingSlugs P slugOf tokens needFetchIdx results =
     fold (\<lambda>i (ids, idxForId).
             if results ! i \<noteq> None then (ids, idxForId)
             else
               case slugOf (tokens ! i) of
                 None \<Rightarrow> (ids, idxForId)
               | Some s \<Rightarrow>
                   let id' = toLowerCase P s in
                   if id' \<noteq> [] then (ids @ [id'], idxForId @ [i]) else (ids, idxForId))
          needFetchIdx ([], [])"

definition applySlugMap ::
  "platform \<Rightarrow> string \<Rightarrow> (SheetTokenRow \<Rightarrow> string option) \<Rightarrow> SheetTokenRow list \<Rightarrow> nat list
     \<Rightarrow> jsmap \<Rightarrow> source \<Rightarrow> PriceResult option list \<Rightarrow> PriceResult option list" where
  "applySlugMap P now slugOf tokens idxForId map' source' results =
     fold (\<lambda>i results.
             if results ! i \<noteq> None then results
             else
               let id' = (case slugOf (tokens ! i) of None \<Rightarrow> [] | Some s \<Rightarrow> toLowerCase P s) in
               case jsGet map' id' of
                 Some v \<Rightarrow>
                   let t = tokens ! i in
                   results[i := Some (toPriceResult P now (SheetTokenRow.chain t)
                                        (contract_address t) (Some v) (Some source')
                                        (SheetTokenRow.symbol t))]
               | None \<Rightarrow> results)
          idxForId results"

text \<open>Step 4: every index still empty gets a result without price and without source.\<close>

definition fillRemaining ::
  "platform \<Rightarrow> string \<Rightarrow> SheetTokenRow list \<Rightarrow> nat list \<Rightarrow> PriceResult option list
     \<Rightarrow> PriceResult option list" where
  "fillRemaining P now tokens needFetchIdx results =
     fold (\<lambda>i results.
             if results ! i = None then
               let t = tokens ! i in
               results[i := Some (toPriceResult P now (SheetTokenRow.chain t) (contract_address t)
                                    None None (SheetTokenRow.symbol t))]
             else results)
          needFetchIdx results"

definition fetchAllPrices ::
  "platform \<Rightarrow> adapters \<Rightarrow> cache \<Rightarrow> string \<Rightarrow> SheetTokenRow list
     \<Rightarrow> PriceResult option list \<times> adapter_call list" where
  "fetchAllPrices P A cache now tokens =
     (case cachePass P cache tokens of (results0, needFetchIdx) \<Rightarrow>
        if needFetchIdx = [] then (results0, [])
        else
          let addresses = map (\<lambda>i. contract_address (tokens ! i)) needFetchIdx;
              dexMap = orEmpty (dexscreenerBatch A addresses);
              results1 = applyMap P now tokens needFetchIdx dexMap (Some Dexscreener) results0
          in case pendingSlugs P coingecko_id tokens needFetchIdx results1 of (ids, idxForId) \<Rightarrow>
          let results2 =
                (if ids \<noteq> []
                 then applySlugMap P now coingecko_id tokens idxForId
                        (orEmpty (coingeckoBatch A ids)) Coingecko results1
                 else results1)
          in case pendingSlugs P cmc_slug tokens needFetchIdx results2 of (slugs, idxForSlug) \<Rightarrow>
          let results3 =
                (if slugs \<noteq> []
                 then applySlugMap P now cmc_slug tokens idxForSlug
                        (orEmpty (cmcBatch A slugs)) Cmc results2
                 else results2)
          in (fillRemaining P now tokens needFetchIdx results3,
              [DexscreenerCall addresses]
              @ (if ids \<noteq> [] then [CoingeckoCall ids] else [])
              @ (if slugs \<noteq> [] then [CmcCall slugs] else [])))"

section \<open>Quantities of a run\<close>

text \<open>
  The values the pipeline computes on its way, written without loops; the lemmas below show
  that \<open>fetchAllPrices\<close> computes exactly these. \<open>fillWith g idxs rs\<close> is the shape shared by
  the four write-back loops: every index of \<open>idxs\<close> whose slot is still empty receives
  \<open>g i\<close> when there is one.
\<close>

definition fillWith :: "(nat \<Rightarrow> 'a option) \<Rightarrow> nat list \<Rightarrow> 'a option list \<Rightarrow> 'a option list" where
  "fillWith g idxs rs =
     fold (\<lambda>i rs. if rs ! i \<noteq> None then rs
                   else (case g i of None \<Rightarrow> rs | Some r \<Rightarrow> rs[i := Some r])) idxs rs"

definition lookupCache :: "platform \<Rightarrow> cache \<Rightarrow> SheetTokenRow \<Rightarrow> PriceResult option" where
  "lookupCache P cache t = cache (cacheKey P (SheetTokenRow.chain t) (contract_address t))"

text \<open>The record the normalizer makes for a token.\<close>

definition fresh ::
  "platform \<Rightarrow> string \<Rightarrow> SheetTokenRow \<Rightarrow> price option \<Rightarrow> source option \<Rightarrow> PriceResult" where
  "fresh P now t price' src =
     toPriceResult P now (SheetTokenRow.chain t) (contract_address t) price' src
       (SheetTokenRow.symbol t)"

definition tokenKey :: "platform \<Rightarrow> SheetTokenRow \<Rightarrow> string" where
  "tokenKey P t = toLowerCase P (contract_address t)"

definition tokenSlug :: "platform \<Rightarrow> (SheetTokenRow \<Rightarrow> string option) \<Rightarrow> SheetTokenRow \<Rightarrow> string" where
  "tokenSlug P slugOf t = (case slugOf t of None \<Rightarrow> [] | Some s \<Rightarrow> toLowerCase P s)"

text \<open>\<open>needFetchIdx\<close>: the indices the cache does not answer.\<close>

definition missIdx :: "platform \<Rightarrow> cache \<Rightarrow> SheetTokenRow list \<Rightarrow> nat list" where
  "missIdx P cache tokens =
     filter (\<lambda>i. lookupCache P cache (tokens ! i) = None) [0..<length tokens]"

text \<open>
  The key list of the Dexscreener call, and the value that the lookup in its answer finds
  for index \<open>i\<close>.
\<close>

definition dexKeys :: "platform \<Rightarrow> cache \<Rightarrow> SheetTokenRow list \<Rightarrow> string list" where
  "dexKeys P cache tokens = map (\<lambda>i. contract_address (tokens ! i)) (missIdx P cache tokens)"

definition dexPrice ::
  "platform \<Rightarrow> adapters \<Rightarrow> cache \<Rightarrow> SheetTokenRow list \<Rightarrow> nat \<Rightarrow> price option" where
  "dexPrice P A cache tokens i =
     jsGet (orEmpty (dexscreenerBatch A (dexKeys P cache tokens))) (tokenKey P (tokens ! i))"

text \<open>\<open>idxForId\<close> and \<open>ids\<close> of step 2, and the value found in CoinGecko's answer for \<open>i\<close>.\<close>

definition cgIdx :: "platform \<Rightarrow> adapters \<Rightarrow> cache \<Rightarrow> SheetTokenRow list \<Rightarrow> nat list" where
  "cgIdx P A cache tokens =
     filter (\<lambda>i. dexPrice P A cache tokens i = None
                  \<and> tokenSlug P coingecko_id (tokens ! i) \<noteq> [])
       (missIdx P cache tokens)"

definition cgKeys :: "platform \<Rightarrow> adapters \<Rightarrow> cache \<Rightarrow> SheetTokenRow list \<Rightarrow> string list" where
  "cgKeys P A cache tokens =
     map (\<lambda>i. tokenSlug P coingecko_id (tokens ! i)) (cgIdx P A cache tokens)"

definition cgPrice ::
  "platform \<Rightarrow> adapters \<Rightarrow> cache \<Rightarrow> SheetTokenRow list \<Rightarrow> nat \<Rightarrow> price option" where
  "cgPrice P A cache tokens i =
     (if i \<in> set (cgIdx P A cache tokens)
      then jsGet (orEmpty (coingeckoBatch A (cgKeys P A cache tokens)))
             (tokenSlug P coingecko_id (tokens ! i))
      else None)"

text \<open>\<open>idxForSlug\<close> and \<open>slugs\<close> of step 3, and the value found in CMC's answer for \<open>i\<close>.\<close>

definition cmcIdx :: "platform \<Rightarrow> adapters \<Rightarrow> cache \<Rightarrow> SheetTokenRow list \<Rightarrow> nat list" where
  "cmcIdx P A cache tokens =
     filter (\<lambda>i. dexPrice P A cache tokens i = None \<and> cgPrice P A cache tokens i = None
                  \<and> tokenSlug P cmc_slug (tokens ! i) \<noteq> [])
       (missIdx P cache tokens)"

definition cmcKeys :: "platform \<Rightarrow> adapters \<Rightarrow> cache \<Rightarrow> SheetTokenRow list \<Rightarrow> string list" where
  "cmcKeys P A cache tokens =
     map (\<lambda>i. tokenSlug P cmc_slug (tokens ! i)) (cmcIdx P A cache tokens)"

definition cmcPrice ::
  "platform \<Rightarrow> adapters \<Rightarrow> cache \<Rightarrow> SheetTokenRow list \<Rightarrow> nat \<Rightarrow> price option" where
  "cmcPrice P A cache tokens i =
     (if i \<in> set (cmcIdx P A cache tokens)
      then jsGet (orEmpty (cmcBatch A (cmcKeys P A cache tokens)))
             (tokenSlug P cmc_slug (tokens ! i))
      else None)"

text \<open>The result of an index the cache does not answer.\<close>

definition resolve ::
  "platform \<Rightarrow> adapters \<Rightarrow> cache \<Rightarrow> string \<Rightarrow> SheetTokenRow list \<Rightarrow> nat \<Rightarrow> PriceResult" where
  "resolve P A cache now tokens i =
     (case dexPrice P A cache tokens i of
        Some v \<Rightarrow> fresh P now (tokens ! i) (Some v) (Some Dexscreener)
      | None \<Rightarrow>
          (case cgPrice P A cache tokens i of
             Some v \<Rightarrow> fresh P now (tokens ! i) (Some v) (Some Coingecko)
           | None \<Rightarrow>
               (case cmcPrice P A cache tokens i of
                  Some v \<Rightarrow> fresh P now (tokens ! i) (Some v) (Some Cmc)
                | None \<Rightarrow> fresh P now (tokens ! i) None None)))"

definition adapterCalls ::
  "platform \<Rightarrow> adapters \<Rightarrow> cache \<Rightarrow> SheetTokenRow list \<Rightarrow> adapter_call list" where
  "adapterCalls P A cache tokens =
     (if missIdx P cache tokens = [] then []
      else [DexscreenerCall (dexKeys P cache tokens)]
           @ (if cgKeys P A cache tokens \<noteq> [] then [CoingeckoCall (cgKeys P A cache tokens)]
              else [])
           @ (if cmcKeys P A cache tokens \<noteq> [] then [CmcCall (cmcKeys P A cache tokens)]
              else []))"


section \<open>Reading an adapter's map and log\<close>

text \<open>
  A map made for the keys \<open>S\<close>: the keys of its own are among \<open>S\<close>, and they are all of
  \<open>S\<close> but possibly \<open>__proto__\<close>, whose assignment has then removed the prototype.
\<close>

definition keyedBy :: "jsmap \<Rightarrow> string set \<Rightarrow> bool" where
  "keyedBy m S =
     (dom (own m) \<subseteq> S \<and> S - {''__proto__''} \<subseteq> dom (own m)
      \<and> (''__proto__'' \<in> S \<longrightarrow> \<not> inherits m))"

text \<open>
  \<open>slices n xs\<close> cuts a list into consecutive pieces of \<open>n\<close> elements, the last one shorter;
  \<open>carried\<close> gives the identifiers a logged call asks for. The grouped calls of a log are
  all but the single-address Dexscreener lookups.
\<close>

function slices :: "nat \<Rightarrow> 'a list \<Rightarrow> 'a list list" where
  "slices n xs = (if xs = [] \<or> n = 0 then [] else take n xs # slices n (drop n xs))"
  by pat_completeness auto
termination
  by (relation "measure (\<lambda>(n, xs). length xs)") auto

declare slices.simps [simp del]

fun carried :: "upstream_call \<Rightarrow> string list" where
  "carried (DexBatchGet ks) = ks"
| "carried (DexSingleGet a) = [a]"
| "carried (CoingeckoGet ids) = ids"
| "carried (CmcLookup s) = [s]"

fun isSingleGet :: "upstream_call \<Rightarrow> bool" where
  "isSingleGet (DexSingleGet a) = True"
| "isSingleGet _ = False"

definition groupedCalls :: "upstream_call list \<Rightarrow> upstream_call list" where
  "groupedCalls calls = filter (\<lambda>c. \<not> isSingleGet c) calls"

definition singleCalls :: "upstream_call list \<Rightarrow> upstream_call list" where
  "singleCalls calls = filter isSingleGet calls"

section \<open>The requests of the Dexscreener adapter, as a function of the responses\<close>

text \<open>
  A response holds a priced pair for a key when one of its pairs has a price and the key as
  the lower-cased address of its base or quote token. The response to the grouped request
  of a sub-batch yields no price when it is empty or holds a priced pair for no key of the
  sub-batch.
\<close>

definition pairOf :: "platform \<Rightarrow> string \<Rightarrow> DexPair \<Rightarrow> bool" where
  "pairOf P k p =
     (addrKey P (baseToken_address p) = k \<or> addrKey P (quoteToken_address p) = k)"

definition pricedFor :: "platform \<Rightarrow> DexPair list \<Rightarrow> string \<Rightarrow> bool" where
  "pricedFor P pairs k = (\<exists>p \<in> set pairs. DexPair.priceUsd p \<noteq> None \<and> pairOf P k p)"

definition yieldsNoPrice :: "platform \<Rightarrow> DexPair list \<Rightarrow> string list \<Rightarrow> bool" where
  "yieldsNoPrice P pairs keys = (pairs = [] \<or> (\<forall>k \<in> set keys. \<not> pricedFor P pairs k))"

text \<open>
  The pairs of a response grouped under a key, each pair once for its base token and once
  for its quote token; the grouping of a response for the keys \<open>S\<close> of a sub-batch; and
  the responses on which no grouping is made, a pair having among its two keys one that is
  in \<open>S\<close> and that objects inherit.
\<close>

definition groupOf :: "platform \<Rightarrow> string \<Rightarrow> DexPair list \<Rightarrow> DexPair list" where
  "groupOf P k pairs =
     concat (map (\<lambda>p. (if addrKey P (baseToken_address p) = k then [p] else [])
                      @ (if addrKey P (quoteToken_address p) = k then [p] else [])) pairs)"

definition grouping :: "platform \<Rightarrow> string set \<Rightarrow> DexPair list \<Rightarrow> (string \<rightharpoonup> DexPair list)" where
  "grouping P S pairs =
     (\<lambda>k. if k \<in> S \<and> groupOf P k pairs \<noteq> [] then Some (groupOf P k pairs) else None)"

definition clash :: "platform \<Rightarrow> string set \<Rightarrow> DexPair list \<Rightarrow> bool" where
  "clash P S pairs =
     (\<exists>p \<in> set pairs. addrKey P (baseToken_address p) \<in> S \<inter> protoKeys
                        \<or> addrKey P (quoteToken_address p) \<in> S \<inter> protoKeys)"

text \<open>
  The requests expected for a list of sub-batches: for each sub-batch in turn its grouped
  request, then, if the response yields no price, one single lookup for each of its
  addresses; nothing more once a grouped request has failed or a sub-batch holds a key
  that objects inherit.
\<close>

fun dexExpectedCalls ::
  "platform \<Rightarrow> upstream \<Rightarrow> nat \<Rightarrow> dex_req list list \<Rightarrow> upstream_call list" where
  "dexExpectedCalls P w retries [] = []"
| "dexExpectedCalls P w retries (ch # rest) =
     DexBatchGet (map fst ch) #
     (case pRetry (dexTokensBatch w (map fst ch)) retries of
        Inl e \<Rightarrow> []
      | Inr pairs \<Rightarrow>
          if set (map snd ch) \<inter> protoKeys \<noteq> {} then []
          else (if yieldsNoPrice P pairs (map snd ch)
                then map (\<lambda>c. DexSingleGet (fst c)) ch else [])
               @ dexExpectedCalls P w retries rest)"

section \<open>The figures compared by the pair selection\<close>

text \<open>
  The liquidity and the volume of a pair, zero when missing; its cap figure: the market cap
  when there is one and it is not zero, else the fully diluted valuation, else zero.
\<close>

definition liquidityFigure :: "DexPair \<Rightarrow> real" where
  "liquidityFigure p = (case liquidity_usd p of None \<Rightarrow> 0 | Some v \<Rightarrow> v)"

definition volumeFigure :: "DexPair \<Rightarrow> real" where
  "volumeFigure p = (case volume_h24 p of None \<Rightarrow> 0 | Some v \<Rightarrow> v)"

definition capFigure :: "DexPair \<Rightarrow> real" where
  "capFigure p =
     (case marketCap p of
        Some m \<Rightarrow> if m \<noteq> 0 then m else (case fdv p of None \<Rightarrow> 0 | Some f \<Rightarrow> f)
      | None \<Rightarrow> (case fdv p of None \<Rightarrow> 0 | Some f \<Rightarrow> f))"

section \<open>Example data\<close>

definition exTokA :: SheetTokenRow where
  "exTokA = \<lparr> SheetTokenRow.chain = ''eth'', contract_address = ''0xAA'',
              symbol = Some ''USDC'', coingecko_id = Some ''usd-coin'', cmc_slug = None \<rparr>"

definition exTokB :: SheetTokenRow where
  "exTokB = \<lparr> SheetTokenRow.chain = ''bsc'', contract_address = ''0xBB'',
              symbol = Some ''USDC'', coingecko_id = Some ''usd-coin'', cmc_slug = Some ''usdc'' \<rparr>"

definition exTokC :: SheetTokenRow where
  "exTokC = \<lparr> SheetTokenRow.chain = ''bsc'', contract_address = ''0xAA'',
              symbol = None, coingecko_id = None, cmc_slug = None \<rparr>"

definition exCached :: PriceResult where
  "exCached = \<lparr> chain = ''eth'', address = ''0xaa'', symbol = Some ''USDC'',
                priceUsd = Some (Num 3), source = Some Dexscreener,
                at_iso = ''2024-01-01T00:00:00.000Z'' \<rparr>"

definition exCache :: cache where
  "exCache = [''price:eth:0xaa'' \<mapsto> exCached]"

text \<open>
  A record of chain \<open>a:b\<close> and address \<open>c\<close>, stored under its key, and a token of chain
  \<open>a\<close> and address \<open>b:c\<close>, which has the same key; a token whose address is the name of a
  property that every object inherits.
\<close>

definition exColonCached :: PriceResult where
  "exColonCached = \<lparr> chain = ''a:b'', address = ''c'', symbol = None,
                     priceUsd = Some (Num 2), source = Some Cmc,
                     at_iso = ''2024-01-01T00:00:00.000Z'' \<rparr>"

definition exColonCache :: cache where
  "exColonCache = [''price:a:b:c'' \<mapsto> exColonCached]"

definition exTokColon :: SheetTokenRow where
  "exTokColon = \<lparr> SheetTokenRow.chain = ''a'', contract_address = ''b:c'',
                  symbol = None, coingecko_id = None, cmc_slug = None \<rparr>"

definition exTokCtor :: SheetTokenRow where
  "exTokCtor = \<lparr> SheetTokenRow.chain = ''eth'', contract_address = ''constructor'',
                 symbol = None, coingecko_id = Some ''usd-coin'', cmc_slug = None \<rparr>"

text \<open>Stub adapters: Dexscreener prices \<open>0xaa\<close> only, CoinGecko prices \<open>usd-coin\<close>, CMC fails.\<close>

definition exAdapters :: adapters where
  "exAdapters =
     \<lparr> dexscreenerBatch =
         (\<lambda>keys. Some \<lparr> own = [''0xaa'' \<mapsto> Some (Num 1), ''0xbb'' \<mapsto> None], inherits = True \<rparr>),
       coingeckoBatch =
         (\<lambda>keys. Some \<lparr> own = [''usd-coin'' \<mapsto> Some (Num 1)], inherits = True \<rparr>),
       cmcBatch = (\<lambda>keys. None) \<rparr>"

text \<open>Stub adapters that answer \<open>null\<close> for every key they are given.\<close>

definition unknownAdapters :: adapters where
  "unknownAdapters =
     \<lparr> dexscreenerBatch =
         (\<lambda>keys. Some \<lparr> own = (\<lambda>k. if k \<in> set (map asciiLower keys) then Some None else None),
                         inherits = True \<rparr>),
       coingeckoBatch =
         (\<lambda>keys. Some \<lparr> own = (\<lambda>k. if k \<in> set keys then Some None else None),
                         inherits = True \<rparr>),
       cmcBatch =
         (\<lambda>keys. Some \<lparr> own = (\<lambda>k. if k \<in> set keys then Some None else None),
                         inherits = True \<rparr>) \<rparr>"


text \<open>A network where every request succeeds and carries no data, and one where every
  request fails.\<close>

definition emptyUpstream :: upstream where
  "emptyUpstream =
     \<lparr> dexTokensBatch = (\<lambda>ks k. Inr []),
       dexTokensSingle = (\<lambda>a k. Inr []),
       coingeckoSimplePrice = (\<lambda>ids k. Inr Map.empty),
       cmcPriceBySlug = (\<lambda>s. None) \<rparr>"

definition failingUpstream :: upstream where
  "failingUpstream =
     \<lparr> dexTokensBatch = (\<lambda>ks k. Inl RequestFailed),
       dexTokensSingle = (\<lambda>a k. Inl RequestFailed),
       coingeckoSimplePrice = (\<lambda>ids k. Inl RequestFailed),
       cmcPriceBySlug = (\<lambda>s. None) \<rparr>"

text \<open>A network where Dexscreener knows no pair and CoinGecko knows the price of \<open>pepe\<close>.\<close>

definition pepeUpstream :: upstream where
  "pepeUpstream =
     \<lparr> dexTokensBatch = (\<lambda>ks k. Inr []),
       dexTokensSingle = (\<lambda>a k. Inr []),
       coingeckoSimplePrice = (\<lambda>ids k. Inr [''pepe'' \<mapsto> RawNum (1 / 100000)]),
       cmcPriceBySlug = (\<lambda>s. None) \<rparr>"

definition exTokPepe :: SheetTokenRow where
  "exTokPepe = \<lparr> SheetTokenRow.chain = ''eth'', contract_address = ''0xAA'',
                 symbol = None, coingecko_id = Some ''pepe'', cmc_slug = None \<rparr>"

text \<open>Thirty-one distinct one-letter addresses.\<close>

definition ex31 :: "string list" where
  "ex31 = map (\<lambda>c. [c]) ''abcdefghijklmnopqrstuvwxyz01234''"

text \<open>
  Pairs of the token \<open>0xaa\<close>: \<open>exPairA\<close> and \<open>exPairB\<close> tie on liquidity; \<open>exPairC\<close> has the
  highest liquidity and no price; \<open>exPairD\<close> and \<open>exPairE\<close> tie with \<open>exPairB\<close> on liquidity
  and volume, \<open>exPairD\<close> with a market cap of 2, \<open>exPairE\<close> with a market cap of 0 and a
  fully diluted valuation of 3; the price of \<open>exPairZ\<close> is the string \<open>0\<close>.
\<close>

definition exPairA :: DexPair where
  "exPairA = \<lparr> DexPair.priceUsd = Some (RawNum 1), liquidity_usd = Some 10, fdv = None,
               marketCap = None, volume_h24 = Some 5, baseToken_address = Some ''0xaa'',
               quoteToken_address = None \<rparr>"

definition exPairB :: DexPair where
  "exPairB = \<lparr> DexPair.priceUsd = Some (RawNum 2), liquidity_usd = Some 10, fdv = Some 1,
               marketCap = None, volume_h24 = Some 9, baseToken_address = Some ''0xaa'',
               quoteToken_address = None \<rparr>"

definition exPairC :: DexPair where
  "exPairC = \<lparr> DexPair.priceUsd = None, liquidity_usd = Some 99, fdv = None, marketCap = None,
               volume_h24 = Some 9, baseToken_address = Some ''0xaa'', quoteToken_address = None \<rparr>"

definition exPairD :: DexPair where
  "exPairD = \<lparr> DexPair.priceUsd = Some (RawNum 4), liquidity_usd = Some 10, fdv = None,
               marketCap = Some 2, volume_h24 = Some 9, baseToken_address = Some ''0xaa'',
               quoteToken_address = None \<rparr>"

definition exPairE :: DexPair where
  "exPairE = \<lparr> DexPair.priceUsd = Some (RawNum 5), liquidity_usd = Some 10, fdv = Some 3,
               marketCap = Some 0, volume_h24 = Some 9, baseToken_address = Some ''0xaa'',
               quoteToken_address = None \<rparr>"

definition exPairZ :: DexPair where
  "exPairZ = \<lparr> DexPair.priceUsd = Some (RawStr ''0''), liquidity_usd = Some 10, fdv = None,
               marketCap = None, volume_h24 = Some 5, baseToken_address = Some ''0xaa'',
               quoteToken_address = None \<rparr>"

text \<open>
  A network where Dexscreener answers every request with \<open>exPairA\<close>, and one where it
  answers the grouped request with no pair and the single lookup with \<open>exPairZ\<close>.
\<close>

definition pairUpstream :: upstream where
  "pairUpstream =
     \<lparr> dexTokensBatch = (\<lambda>ks k. Inr [exPairA]),
       dexTokensSingle = (\<lambda>a k. Inr [exPairA]),
       coingeckoSimplePrice = (\<lambda>ids k. Inr Map.empty),
       cmcPriceBySlug = (\<lambda>s. None) \<rparr>"

text \<open>A network where Dexscreener answers a grouped request with a priced pair of the first
  address asked for.\<close>

definition headUpstream :: upstream where
  "headUpstream =
     \<lparr> dexTokensBatch = (\<lambda>ks k. Inr [exPairA\<lparr>baseToken_address := Some (hd ks)\<rparr>]),
       dexTokensSingle = (\<lambda>a k. Inr []),
       coingeckoSimplePrice = (\<lambda>ids k. Inr Map.empty),
       cmcPriceBySlug = (\<lambda>s. None) \<rparr>"

definition zeroUpstream :: upstream where
  "zeroUpstream =
     \<lparr> dexTokensBatch = (\<lambda>ks k. Inr []),
       dexTokensSingle = (\<lambda>a k. Inr [exPairZ]),
       coingeckoSimplePrice = (\<lambda>ids k. Inr Map.empty),
       cmcPriceBySlug = (\<lambda>s. None) \<rparr>"

section \<open>The run summary\<close>

lemma fold_summarizeStep:
  "fold summarizeStep prices (bs, wp) = (bs', wp') \<Longrightarrow>
     wp' = wp + int (length (filter (\<lambda>p. priceUsd p \<noteq> None) prices))
     \<and> dexscreener bs' + coingecko bs' + cmc bs'
         = dexscreener bs + coingecko bs + cmc bs
           + int (length (filter (\<lambda>p. priceUsd p \<noteq> None \<and> source p \<noteq> None) prices))"
proof (induction prices arbitrary: bs wp)
  case Nil
  then show ?case by simp
next
  case (Cons p ps)
  obtain bs1 wp1 where step: "summarizeStep p (bs, wp) = (bs1, wp1)"
    by (cases "summarizeStep p (bs, wp)")
  with Cons.prems have "fold summarizeStep ps (bs1, wp1) = (bs', wp')" by simp
  from Cons.IH [OF this] have ih:
    "wp' = wp1 + int (length (filter (\<lambda>p. priceUsd p \<noteq> None) ps))"
    "dexscreener bs' + coingecko bs' + cmc bs'
         = dexscreener bs1 + coingecko bs1 + cmc bs1
           + int (length (filter (\<lambda>p. priceUsd p \<noteq> None \<and> source p \<noteq> None) ps))"
    by simp_all
  have s1: "wp1 = wp + (if priceUsd p \<noteq> None then 1 else 0)"
    using step by (auto simp: summarizeStep_def split: if_splits)
  have s2: "dexscreener bs1 + coingecko bs1 + cmc bs1
      = dexscreener bs + coingecko bs + cmc bs
        + (if priceUsd p \<noteq> None \<and> source p \<noteq> None then 1 else 0)"
  proof (cases "source p")
    case None
    then show ?thesis using step by (auto simp: summarizeStep_def split: if_splits)
  next
    case (Some s)
    then show ?thesis using step
      by (cases s) (auto simp: summarizeStep_def split: if_splits)
  qed
  show ?case using ih s1 s2 by simp
qed

text \<open>
  C10. For every list of results, \<open>summarize\<close> reports the length of the list as \<open>total\<close>,
  the number of entries with a price as \<open>withPrice\<close>, their difference as \<open>nulls\<close>, and,
  whenever every priced entry names one of the three providers as its source, counters by
  source that add up to \<open>withPrice\<close>.
\<close>

theorem summarize_counts:
  "total (totals (summarize prices)) = int (length prices)
   \<and> withPrice (totals (summarize prices))
       = int (length (filter (\<lambda>p. priceUsd p \<noteq> None) prices))
   \<and> nulls (totals (summarize prices))
       = total (totals (summarize prices)) - withPrice (totals (summarize prices))
   \<and> ((\<forall>p \<in> set prices. priceUsd p \<noteq> None \<longrightarrow>
          source p \<in> {Some Dexscreener, Some Coingecko, Some Cmc})
        \<longrightarrow> dexscreener (bySource (summarize prices)) + coingecko (bySource (summarize prices))
              + cmc (bySource (summarize prices))
            = withPrice (totals (summarize prices)))"
proof -
  obtain bs wp where f:
    "fold summarizeStep prices (\<lparr>dexscreener = 0, coingecko = 0, cmc = 0\<rparr>, 0) = (bs, wp)"
    by (cases "fold summarizeStep prices (\<lparr>dexscreener = 0, coingecko = 0, cmc = 0\<rparr>, 0)")
  from fold_summarizeStep [OF f] have
    wp: "wp = int (length (filter (\<lambda>p. priceUsd p \<noteq> None) prices))" and
    bs: "dexscreener bs + coingecko bs + cmc bs
          = int (length (filter (\<lambda>p. priceUsd p \<noteq> None \<and> source p \<noteq> None) prices))"
    by simp_all
  have s: "summarize prices =
      \<lparr> totals = \<lparr> total = int (length prices), withPrice = wp,
                   nulls = int (length prices) - wp \<rparr>, bySource = bs \<rparr>"
    by (simp add: summarize_def f)
  have "(\<forall>p \<in> set prices. priceUsd p \<noteq> None \<longrightarrow>
          source p \<in> {Some Dexscreener, Some Coingecko, Some Cmc})
     \<Longrightarrow> filter (\<lambda>p. priceUsd p \<noteq> None \<and> source p \<noteq> None) prices
         = filter (\<lambda>p. priceUsd p \<noteq> None) prices"
    by (rule filter_cong) auto
  with s wp bs show ?thesis by auto
qed

text \<open>A run of two results, one priced by CoinGecko and one without price.\<close>

theorem summarize_counts_witness:
  "priceUsd (toPriceResult asciiPlatform ''t'' ''eth'' ''0xAA'' (Some (Num 2)) (Some Coingecko) None) \<noteq> None
   \<and> source (toPriceResult asciiPlatform ''t'' ''eth'' ''0xAA'' (Some (Num 2)) (Some Coingecko) None) = Some Coingecko
   \<and> priceUsd (toPriceResult asciiPlatform ''t'' ''sol'' ''Mint'' None None None) = None
   \<and> summarize [toPriceResult asciiPlatform ''t'' ''eth'' ''0xAA'' (Some (Num 2)) (Some Coingecko) None,
                toPriceResult asciiPlatform ''t'' ''sol'' ''Mint'' None None None]
     = \<lparr> totals = \<lparr> total = 2, withPrice = 1, nulls = 1 \<rparr>,
         bySource = \<lparr> dexscreener = 0, coingecko = 1, cmc = 0 \<rparr> \<rparr>"
  using summarize_counts [of "[toPriceResult asciiPlatform ''t'' ''eth'' ''0xAA'' (Some (Num 2)) (Some Coingecko) None,
                toPriceResult asciiPlatform ''t'' ''sol'' ''Mint'' None None None]"]
  by (simp add: summarize_def summarizeStep_def toPriceResult_def)

section \<open>The best pair\<close>

lemma set_insertBy: "set (insertBy cmp x ys) = insert x (set ys)"
  by (induction ys) auto

lemma set_sortBy: "set (sortBy cmp xs) = set xs"
  by (induction xs) (auto simp: sortBy_def set_insertBy)

lemma sortBy_Cons: "sortBy cmp (x # xs) = insertBy cmp x (sortBy cmp xs)"
  by (simp add: sortBy_def)

lemma sortBy_Nil_iff: "sortBy cmp xs = [] \<longleftrightarrow> xs = []"
  using set_sortBy [of cmp xs] by (metis set_empty)

lemma hd_insertBy:
  "hd (insertBy cmp x ys) = (if ys = [] \<or> cmp x (hd ys) \<le> 0 then x else hd ys)"
  by (cases ys) auto

text \<open>For a transitive and total comparator, no element goes before the head of the
  sorted list.\<close>

lemma hd_sortBy_least:
  assumes trans: "\<And>a b c. cmp a b \<le> 0 \<Longrightarrow> cmp b c \<le> 0 \<Longrightarrow> cmp a c \<le> 0"
    and total: "\<And>a b. cmp a b \<le> 0 \<or> cmp b a \<le> 0"
    and refl: "\<And>a. cmp a a \<le> 0"
  shows "xs \<noteq> [] \<Longrightarrow> p \<in> set xs \<Longrightarrow> cmp (hd (sortBy cmp xs)) p \<le> 0"
proof (induction xs arbitrary: p)
  case Nil
  then show ?case by simp
next
  case (Cons x xs)
  show ?case
  proof (cases "xs = []")
    case True
    with Cons.prems show ?thesis by (simp add: sortBy_def refl)
  next
    case False
    then have ne: "sortBy cmp xs \<noteq> []" by (simp add: sortBy_Nil_iff)
    let ?h = "hd (sortBy cmp xs)"
    have ih: "\<And>q. q \<in> set xs \<Longrightarrow> cmp ?h q \<le> 0" using Cons.IH False by blast
    show ?thesis
    proof (cases "cmp x ?h \<le> 0")
      case True
      then have hd: "hd (sortBy cmp (x # xs)) = x"
        by (simp add: sortBy_Cons hd_insertBy)
      show ?thesis
      proof (cases "p = x")
        case True
        with hd show ?thesis by (simp add: refl)
      next
        case False
        with Cons.prems have "p \<in> set xs" by simp
        then have "cmp ?h p \<le> 0" by (rule ih)
        with \<open>cmp x ?h \<le> 0\<close> have "cmp x p \<le> 0" by (rule trans)
        with hd show ?thesis by simp
      qed
    next
      case False
      then have hd: "hd (sortBy cmp (x # xs)) = ?h"
        using ne by (simp add: sortBy_Cons hd_insertBy)
      from False total have hx: "cmp ?h x \<le> 0" by blast
      show ?thesis
      proof (cases "p = x")
        case True
        with hd hx show ?thesis by simp
      next
        case False
        with Cons.prems have "p \<in> set xs" by simp
        then show ?thesis using hd ih by simp
      qed
    qed
  qed
qed

lemma orElse_zero [simp]:
  "orElse (liquidity_usd p) 0 = liquidityFigure p"
  "orElse (volume_h24 p) 0 = volumeFigure p"
  "orElse (marketCap p) (orElse (fdv p) 0) = capFigure p"
  by (auto simp: orElse_def liquidityFigure_def volumeFigure_def capFigure_def
      split: option.splits)

lemma comparePairs_le0:
  "comparePairs a b \<le> 0 \<longleftrightarrow>
     liquidityFigure b < liquidityFigure a
     \<or> (liquidityFigure b = liquidityFigure a
        \<and> (volumeFigure b < volumeFigure a
           \<or> (volumeFigure b = volumeFigure a \<and> capFigure b \<le> capFigure a)))"
  by (auto simp: comparePairs_def Let_def)

lemma comparePairs_trans:
  "comparePairs a b \<le> 0 \<Longrightarrow> comparePairs b c \<le> 0 \<Longrightarrow> comparePairs a c \<le> 0"
  unfolding comparePairs_le0 by auto

lemma comparePairs_total: "comparePairs a b \<le> 0 \<or> comparePairs b a \<le> 0"
  unfolding comparePairs_le0 by auto

lemma comparePairs_refl: "comparePairs a a \<le> 0"
  unfolding comparePairs_le0 by auto

lemma pickBestPair_None: "pickBestPair pairs = None \<longleftrightarrow> (\<forall>p \<in> set pairs. DexPair.priceUsd p = None)"
  by (auto simp: pickBestPair_def Let_def filter_empty_conv)

lemma pickBestPair_Some:
  "pickBestPair pairs = Some best \<Longrightarrow> best \<in> set pairs \<and> DexPair.priceUsd best \<noteq> None"
proof -
  assume a: "pickBestPair pairs = Some best"
  let ?cands = "filter (\<lambda>p. DexPair.priceUsd p \<noteq> None) pairs"
  from a have ne: "?cands \<noteq> []" and b: "best = hd (sortBy comparePairs ?cands)"
    by (auto simp: pickBestPair_def Let_def split: if_splits)
  from ne have "sortBy comparePairs ?cands \<noteq> []" by (simp add: sortBy_Nil_iff)
  then have "hd (sortBy comparePairs ?cands) \<in> set (sortBy comparePairs ?cands)"
    by (rule hd_in_set)
  then have "best \<in> set ?cands" using b by (simp only: set_sortBy)
  then show ?thesis by simp
qed

text \<open>
  C9, as amended. When a response holds several pairs for a token, \<open>pickBestPair\<close> selects
  among the pairs with a known price one of highest USD liquidity; among those of equal
  liquidity one of highest 24h volume; among those of equal volume too, one of highest cap
  figure, which is the market cap when there is one and it is not zero, and the fully
  diluted valuation otherwise; a missing figure counts as zero; and whenever some pair has
  a price, a pair is selected.
\<close>

theorem pickBestPair_highest:
  assumes "\<exists>p \<in> set pairs. DexPair.priceUsd p \<noteq> None"
  shows "\<exists>best. pickBestPair pairs = Some best
     \<and> best \<in> set pairs \<and> DexPair.priceUsd best \<noteq> None
     \<and> (\<forall>p \<in> set pairs. DexPair.priceUsd p \<noteq> None \<longrightarrow>
           liquidityFigure p \<le> liquidityFigure best
           \<and> (liquidityFigure p = liquidityFigure best \<longrightarrow>
                volumeFigure p \<le> volumeFigure best
                \<and> (volumeFigure p = volumeFigure best \<longrightarrow>
                     capFigure p \<le> capFigure best)))"
proof -
  let ?cands = "filter (\<lambda>p. DexPair.priceUsd p \<noteq> None) pairs"
  let ?best = "hd (sortBy comparePairs ?cands)"
  from assms have ne: "?cands \<noteq> []" by (auto simp: filter_empty_conv)
  then have pick: "pickBestPair pairs = Some ?best" by (simp add: pickBestPair_def)
  from pickBestPair_Some [OF pick] have mem: "?best \<in> set pairs"
    "DexPair.priceUsd ?best \<noteq> None" by simp_all
  have least: "comparePairs ?best p \<le> 0" if "p \<in> set ?cands" for p
    using comparePairs_trans comparePairs_total comparePairs_refl ne that
    by (rule hd_sortBy_least)
  have "liquidityFigure p \<le> liquidityFigure ?best
           \<and> (liquidityFigure p = liquidityFigure ?best \<longrightarrow>
                volumeFigure p \<le> volumeFigure ?best
                \<and> (volumeFigure p = volumeFigure ?best \<longrightarrow>
                     capFigure p \<le> capFigure ?best))"
    if "p \<in> set pairs" "DexPair.priceUsd p \<noteq> None" for p
  proof -
    from that have "p \<in> set ?cands" by simp
    from least [OF this] show ?thesis unfolding comparePairs_le0 by auto
  qed
  with pick mem show ?thesis by blast
qed

lemmas pair_defs = exPairA_def exPairB_def exPairC_def exPairD_def exPairE_def exPairZ_def

text \<open>
  Five pairs: the one of highest liquidity has no price; the other four tie on liquidity;
  three of them tie on the highest volume, and of these the one with a market cap of zero
  and a fully diluted valuation of 3 has the highest cap figure.
\<close>

theorem pickBestPair_highest_witness:
  "DexPair.priceUsd exPairD \<noteq> None
   \<and> exPairD \<in> set [exPairA, exPairC, exPairB, exPairD, exPairE]
   \<and> pickBestPair [exPairA, exPairC, exPairB, exPairD, exPairE] = Some exPairE
   \<and> liquidityFigure exPairD = liquidityFigure exPairE
   \<and> volumeFigure exPairD = volumeFigure exPairE
   \<and> capFigure exPairD = 2 \<and> capFigure exPairE = 3
   \<and> (\<exists>best. pickBestPair [exPairA, exPairC, exPairB, exPairD, exPairE] = Some best
         \<and> liquidityFigure exPairD \<le> liquidityFigure best
         \<and> volumeFigure exPairD \<le> volumeFigure best
         \<and> capFigure exPairD \<le> capFigure best)"
proof -
  have a: "DexPair.priceUsd exPairD \<noteq> None"
    "exPairD \<in> set [exPairA, exPairC, exPairB, exPairD, exPairE]"
    by (simp_all add: exPairD_def)
  then have h: "\<exists>p \<in> set [exPairA, exPairC, exPairB, exPairD, exPairE]. DexPair.priceUsd p \<noteq> None"
    by blast
  have l: "liquidityFigure exPairD = liquidityFigure exPairE"
    "volumeFigure exPairD = volumeFigure exPairE"
    "capFigure exPairD = 2" "capFigure exPairE = 3"
    by (simp_all add: liquidityFigure_def volumeFigure_def capFigure_def pair_defs)
  have e: "pickBestPair [exPairA, exPairC, exPairB, exPairD, exPairE] = Some exPairE"
    by (simp add: pickBestPair_def sortBy_def comparePairs_def orElse_def pair_defs)
  from pickBestPair_highest [OF h] a e l show ?thesis by auto
qed

text \<open>
  The claim as first stated fails for a market cap of zero: of two priced pairs that tie
  on liquidity and volume, the one with a market cap of 2 has the highest market cap, and
  the one with a market cap of 0 and a fully diluted valuation of 3 is selected.
\<close>

theorem market_cap_zero_counterexample:
  "pickBestPair [exPairD, exPairE] = Some exPairE
   \<and> DexPair.priceUsd exPairD \<noteq> None \<and> DexPair.priceUsd exPairE \<noteq> None
   \<and> liquidity_usd exPairD = liquidity_usd exPairE
   \<and> volume_h24 exPairD = volume_h24 exPairE
   \<and> marketCap exPairD = Some 2 \<and> marketCap exPairE = Some 0 \<and> fdv exPairE = Some 3"
  by (simp add: pickBestPair_def sortBy_def comparePairs_def orElse_def pair_defs)

section \<open>The pipeline computes the quantities of a run\<close>

lemma jsGet_jsIn: "jsGet m k \<noteq> None \<Longrightarrow> jsIn m k"
  by (auto simp: jsGet_def jsIn_def split: option.splits if_splits)

lemma fillWith_Nil: "fillWith g [] rs = rs"
  by (simp add: fillWith_def)

lemma fillWith_Cons:
  "fillWith g (i # idxs) rs =
     fillWith g idxs (if rs ! i \<noteq> None then rs
                      else (case g i of None \<Rightarrow> rs | Some r \<Rightarrow> rs[i := Some r]))"
  by (simp add: fillWith_def)

lemma length_fillWith: "length (fillWith g idxs rs) = length rs"
  by (induction idxs arbitrary: rs) (auto simp: fillWith_Nil fillWith_Cons split: option.splits)

lemma nth_fillWith:
  "\<forall>i \<in> set idxs. i < length rs \<Longrightarrow> j < length rs \<Longrightarrow>
     fillWith g idxs rs ! j = (if j \<in> set idxs \<and> rs ! j = None then g j else rs ! j)"
proof (induction idxs arbitrary: rs)
  case Nil
  then show ?case by (simp add: fillWith_Nil)
next
  case (Cons i idxs)
  let ?rs' = "if rs ! i \<noteq> None then rs
              else (case g i of None \<Rightarrow> rs | Some r \<Rightarrow> rs[i := Some r])"
  have len: "length ?rs' = length rs" by (simp split: option.splits)
  have ih: "fillWith g idxs ?rs' ! j = (if j \<in> set idxs \<and> ?rs' ! j = None then g j else ?rs' ! j)"
    using Cons.IH [of ?rs'] Cons.prems len by simp
  have i: "i < length rs" using Cons.prems by simp
  show ?case
  proof (cases "j = i")
    case True
    then show ?thesis using ih i by (auto simp: fillWith_Cons split: option.splits)
  next
    case False
    then have "?rs' ! j = rs ! j" by (simp split: option.splits)
    then show ?thesis using ih False by (simp add: fillWith_Cons)
  qed
qed

lemma cachePass_prefix:
  "n \<le> length tokens \<Longrightarrow>
   fold (\<lambda>i (results, needFetchIdx).
             let t = tokens ! i in
             case cache (cacheKey P (SheetTokenRow.chain t) (contract_address t)) of
               Some c \<Rightarrow> (results[i := Some c], needFetchIdx)
             | None \<Rightarrow> (results, needFetchIdx @ [i]))
          [0..<n] (replicate (length tokens) None, [])
   = (map (\<lambda>i. if i < n then lookupCache P cache (tokens ! i) else None) [0..<length tokens],
      filter (\<lambda>i. lookupCache P cache (tokens ! i) = None) [0..<n])"
proof (induction n)
  case 0
  then show ?case by (simp add: map_replicate_const)
next
  case (Suc n)
  then have n: "n < length tokens" by simp
  have upd: "(map (\<lambda>i. if i < n then lookupCache P cache (tokens ! i) else None) [0..<length tokens])
               [n := lookupCache P cache (tokens ! n)]
             = map (\<lambda>i. if i < Suc n then lookupCache P cache (tokens ! i) else None) [0..<length tokens]"
    using n by (intro nth_equalityI) (auto simp: nth_list_update less_Suc_eq)
  have same: "lookupCache P cache (tokens ! n) = None \<Longrightarrow>
       map (\<lambda>i. if i < n then lookupCache P cache (tokens ! i) else None) [0..<length tokens]
       = map (\<lambda>i. if i < Suc n then lookupCache P cache (tokens ! i) else None) [0..<length tokens]"
    by (auto simp: less_Suc_eq)
  show ?case
  proof (cases "lookupCache P cache (tokens ! n)")
    case None
    then show ?thesis using Suc n same
      by (simp add: Let_def lookupCache_def [symmetric])
  next
    case (Some c)
    then show ?thesis using Suc n upd
      by (simp add: Let_def lookupCache_def [symmetric])
  qed
qed

lemma cachePass_eq:
  "cachePass P cache tokens
   = (map (lookupCache P cache) tokens,
      filter (\<lambda>i. lookupCache P cache (tokens ! i) = None) [0..<length tokens])"
proof -
  have "map (\<lambda>i. if i < length tokens then lookupCache P cache (tokens ! i) else None) [0..<length tokens]
        = map (lookupCache P cache) tokens"
    by (intro nth_equalityI) auto
  then show ?thesis
    unfolding cachePass_def using cachePass_prefix [of "length tokens" tokens cache] by simp
qed

lemma applyMap_fillWith:
  "applyMap P now tokens need m src rs
   = fillWith (\<lambda>i. map_option (\<lambda>v. fresh P now (tokens ! i) (Some v) src)
                     (jsGet m (tokenKey P (tokens ! i)))) need rs"
  unfolding applyMap_def fillWith_def
  by (rule arg_cong [where f = "\<lambda>f. fold f need rs"])
     (auto simp: fun_eq_iff Let_def tokenKey_def fresh_def jsGet_jsIn split: option.splits)

lemma applySlugMap_fillWith:
  "applySlugMap P now slugOf tokens idxs m src rs
   = fillWith (\<lambda>i. map_option (\<lambda>v. fresh P now (tokens ! i) (Some v) (Some src))
                     (jsGet m (tokenSlug P slugOf (tokens ! i)))) idxs rs"
  unfolding applySlugMap_def fillWith_def
  by (rule arg_cong [where f = "\<lambda>f. fold f idxs rs"])
     (auto simp: fun_eq_iff Let_def tokenSlug_def fresh_def split: option.splits)

lemma fillRemaining_fillWith:
  "fillRemaining P now tokens need rs
   = fillWith (\<lambda>i. Some (fresh P now (tokens ! i) None None)) need rs"
  unfolding fillRemaining_def fillWith_def
  by (rule arg_cong [where f = "\<lambda>f. fold f need rs"])
     (auto simp: fun_eq_iff Let_def fresh_def)

lemma pendingSlugs_fold:
  "fold (\<lambda>i (ids, idxForId).
             if results ! i \<noteq> None then (ids, idxForId)
             else
               case slugOf (tokens ! i) of
                 None \<Rightarrow> (ids, idxForId)
               | Some s \<Rightarrow>
                   let id' = toLowerCase P s in
                   if id' \<noteq> [] then (ids @ [id'], idxForId @ [i]) else (ids, idxForId))
          need (ids0, idx0)
   = (ids0 @ map (\<lambda>i. tokenSlug P slugOf (tokens ! i))
               (filter (\<lambda>i. results ! i = None \<and> tokenSlug P slugOf (tokens ! i) \<noteq> []) need),
      idx0 @ filter (\<lambda>i. results ! i = None \<and> tokenSlug P slugOf (tokens ! i) \<noteq> []) need)"
  by (induction need arbitrary: ids0 idx0)
     (auto simp: tokenSlug_def Let_def split: option.splits)

lemma pendingSlugs_eq:
  "pendingSlugs P slugOf tokens need results
   = (map (\<lambda>i. tokenSlug P slugOf (tokens ! i))
        (filter (\<lambda>i. results ! i = None \<and> tokenSlug P slugOf (tokens ! i) \<noteq> []) need),
      filter (\<lambda>i. results ! i = None \<and> tokenSlug P slugOf (tokens ! i) \<noteq> []) need)"
  unfolding pendingSlugs_def using pendingSlugs_fold [where ?ids0.0 = "[]" and ?idx0.0 = "[]"]
  by simp

lemma missIdx_facts:
  "i \<in> set (missIdx P cache tokens) \<longleftrightarrow> i < length tokens \<and> lookupCache P cache (tokens ! i) = None"
  by (auto simp: missIdx_def)

lemma fetchAllPrices_eq:
  "fetchAllPrices P A cache now tokens
   = (map (\<lambda>i. case lookupCache P cache (tokens ! i) of
                  Some c \<Rightarrow> Some c
                | None \<Rightarrow> Some (resolve P A cache now tokens i)) [0..<length tokens],
      adapterCalls P A cache tokens)"
proof (cases "missIdx P cache tokens = []")
  case True
  then have all: "\<And>i. i < length tokens \<Longrightarrow> lookupCache P cache (tokens ! i) \<noteq> None"
    using missIdx_facts [of _ P cache tokens] by (metis empty_iff empty_set)
  have "map (lookupCache P cache) tokens
        = map (\<lambda>i. case lookupCache P cache (tokens ! i) of
                  Some c \<Rightarrow> Some c
                | None \<Rightarrow> Some (resolve P A cache now tokens i)) [0..<length tokens]"
    using all by (intro nth_equalityI) (auto split: option.splits)
  then show ?thesis using True
    by (simp add: fetchAllPrices_def cachePass_eq adapterCalls_def missIdx_def [symmetric])
next
  case False
  let ?N = "length tokens"
  let ?need = "missIdx P cache tokens"
  let ?rs0 = "map (lookupCache P cache) tokens"
  let ?dexMap = "orEmpty (dexscreenerBatch A (dexKeys P cache tokens))"
  let ?g1 = "\<lambda>i. map_option (\<lambda>v. fresh P now (tokens ! i) (Some v) (Some Dexscreener))
                     (jsGet ?dexMap (tokenKey P (tokens ! i)))"
  let ?rs1 = "fillWith ?g1 ?need ?rs0"
  let ?cgIdx = "cgIdx P A cache tokens"
  let ?cgMap = "orEmpty (coingeckoBatch A (cgKeys P A cache tokens))"
  let ?g2 = "\<lambda>i. map_option (\<lambda>v. fresh P now (tokens ! i) (Some v) (Some Coingecko))
                     (jsGet ?cgMap (tokenSlug P coingecko_id (tokens ! i)))"
  let ?rs2 = "fillWith ?g2 ?cgIdx ?rs1"
  let ?cmcIdx = "cmcIdx P A cache tokens"
  let ?cmcMap = "orEmpty (cmcBatch A (cmcKeys P A cache tokens))"
  let ?g3 = "\<lambda>i. map_option (\<lambda>v. fresh P now (tokens ! i) (Some v) (Some Cmc))
                     (jsGet ?cmcMap (tokenSlug P cmc_slug (tokens ! i)))"
  let ?rs3 = "fillWith ?g3 ?cmcIdx ?rs2"
  let ?g4 = "\<lambda>i. Some (fresh P now (tokens ! i) None None)"
  let ?rs4 = "fillWith ?g4 ?need ?rs3"
  have need: "\<And>i. i \<in> set ?need \<Longrightarrow> i < ?N \<and> ?rs0 ! i = None"
    by (simp add: missIdx_facts)
  have cg_sub: "set ?cgIdx \<subseteq> set ?need" by (auto simp: cgIdx_def)
  have cmc_sub: "set ?cmcIdx \<subseteq> set ?need" by (auto simp: cmcIdx_def)
  have len0: "length ?rs0 = ?N" by simp
  have len1: "length ?rs1 = ?N" by (simp add: length_fillWith)
  have len2: "length ?rs2 = ?N" by (simp add: length_fillWith)
  have len3: "length ?rs3 = ?N" by (simp add: length_fillWith)
  have n1: "?rs1 ! j = (if j \<in> set ?need then ?g1 j else ?rs0 ! j)" if "j < ?N" for j
  proof -
    have "\<forall>i \<in> set ?need. i < length ?rs0" using need by simp
    from nth_fillWith [OF this, of j ?g1] that
    have "?rs1 ! j = (if j \<in> set ?need \<and> ?rs0 ! j = None then ?g1 j else ?rs0 ! j)" by simp
    moreover have "?rs0 ! j = None" if "j \<in> set ?need" using need [OF that] by blast
    ultimately show ?thesis by presburger
  qed
  have n2: "?rs2 ! j = (if j \<in> set ?cgIdx then ?g2 j else ?rs1 ! j)" if "j < ?N" for j
  proof -
    have "\<forall>i \<in> set ?cgIdx. i < length ?rs1" using cg_sub need len1 by auto
    from nth_fillWith [OF this, of j ?g2] that len1
    have "?rs2 ! j = (if j \<in> set ?cgIdx \<and> ?rs1 ! j = None then ?g2 j else ?rs1 ! j)" by simp
    moreover have "?rs1 ! j = None" if "j \<in> set ?cgIdx"
      using that n1 [OF \<open>j < ?N\<close>] by (auto simp: cgIdx_def dexPrice_def)
    ultimately show ?thesis by auto
  qed
  have f1: "filter (\<lambda>i. ?rs1 ! i = None \<and> tokenSlug P coingecko_id (tokens ! i) \<noteq> []) ?need = ?cgIdx"
    unfolding cgIdx_def
    by (rule filter_cong [OF refl]) (use need n1 in \<open>auto simp: dexPrice_def\<close>)
  have r2none: "?rs2 ! j = None \<longleftrightarrow> dexPrice P A cache tokens j = None \<and> cgPrice P A cache tokens j = None"
    if "j \<in> set ?need" for j
  proof -
    have j: "j < ?N" using need that by simp
    show ?thesis
    proof (cases "j \<in> set ?cgIdx")
      case True
      then have "dexPrice P A cache tokens j = None" by (simp add: cgIdx_def)
      with True n2 [OF j] show ?thesis by (simp add: cgPrice_def)
    next
      case False
      with n2 [OF j] n1 [OF j] that show ?thesis by (simp add: cgPrice_def dexPrice_def)
    qed
  qed
  have f2: "filter (\<lambda>i. ?rs2 ! i = None \<and> tokenSlug P cmc_slug (tokens ! i) \<noteq> []) ?need = ?cmcIdx"
    unfolding cmcIdx_def
    by (rule filter_cong [OF refl]) (use r2none in auto)
  have n3: "?rs3 ! j = (if j \<in> set ?cmcIdx then ?g3 j else ?rs2 ! j)" if "j < ?N" for j
  proof -
    have "\<forall>i \<in> set ?cmcIdx. i < length ?rs2" using cmc_sub need len2 by auto
    from nth_fillWith [OF this, of j ?g3] that len2
    have "?rs3 ! j = (if j \<in> set ?cmcIdx \<and> ?rs2 ! j = None then ?g3 j else ?rs2 ! j)" by simp
    moreover have "?rs2 ! j = None" if "j \<in> set ?cmcIdx"
      using that r2none [of j] cmc_sub by (auto simp: cmcIdx_def)
    ultimately show ?thesis by auto
  qed
  have n4: "?rs4 ! j = (if j \<in> set ?need \<and> ?rs3 ! j = None then ?g4 j else ?rs3 ! j)" if "j < ?N" for j
  proof -
    have "\<forall>i \<in> set ?need. i < length ?rs3" using need len3 by auto
    from nth_fillWith [OF this, of j ?g4] that len3 show ?thesis by simp
  qed
  have res: "?rs4 = map (\<lambda>i. case lookupCache P cache (tokens ! i) of
                  Some c \<Rightarrow> Some c
                | None \<Rightarrow> Some (resolve P A cache now tokens i)) [0..<?N]"
  proof (intro nth_equalityI)
    show "length ?rs4 = length (map (\<lambda>i. case lookupCache P cache (tokens ! i) of
                  Some c \<Rightarrow> Some c
                | None \<Rightarrow> Some (resolve P A cache now tokens i)) [0..<?N])"
      by (simp add: length_fillWith)
  next
    fix j assume "j < length ?rs4"
    then have j: "j < ?N" by (simp add: length_fillWith)
    show "?rs4 ! j = map (\<lambda>i. case lookupCache P cache (tokens ! i) of
                  Some c \<Rightarrow> Some c
                | None \<Rightarrow> Some (resolve P A cache now tokens i)) [0..<?N] ! j"
    proof (cases "lookupCache P cache (tokens ! j)")
      case (Some c)
      then have "j \<notin> set ?need" by (simp add: missIdx_facts)
      moreover from this cg_sub cmc_sub have "j \<notin> set ?cgIdx" "j \<notin> set ?cmcIdx" by auto
      ultimately show ?thesis using n1 [OF j] n2 [OF j] n3 [OF j] n4 [OF j] j Some by simp
    next
      case None
      then have jn: "j \<in> set ?need" using j by (simp add: missIdx_facts)
      show ?thesis
        using n1 [OF j] n2 [OF j] n3 [OF j] n4 [OF j] j None jn
        by (auto simp: resolve_def dexPrice_def cgPrice_def cmcPrice_def cgIdx_def cmcIdx_def
                 split: option.splits)
    qed
  qed
  have ids: "cgKeys P A cache tokens = [] \<longleftrightarrow> ?cgIdx = []" by (simp add: cgKeys_def)
  have slugs: "cmcKeys P A cache tokens = [] \<longleftrightarrow> ?cmcIdx = []" by (simp add: cmcKeys_def)
  have rs2_if: "(if ?cgIdx \<noteq> [] then ?rs2 else ?rs1) = ?rs2"
    by (auto simp: fillWith_Nil)
  have rs3_if: "(if ?cmcIdx \<noteq> [] then ?rs3 else ?rs2) = ?rs3"
    by (auto simp: fillWith_Nil)
  define need where "need = ?need"
  define addresses where "addresses = map (\<lambda>i. contract_address (tokens ! i)) need"
  define rs0 where "rs0 = ?rs0"
  define rs1 where "rs1 = ?rs1"
  define ids where "ids = cgKeys P A cache tokens"
  define cgI where "cgI = ?cgIdx"
  define rs2 where "rs2 = ?rs2"
  define slugs where "slugs = cmcKeys P A cache tokens"
  define cmcI where "cmcI = ?cmcIdx"
  define rs3 where "rs3 = ?rs3"
  define rs4 where "rs4 = ?rs4"
  have ne: "need \<noteq> []" using False by (simp add: need_def)
  have adr: "addresses = dexKeys P cache tokens" by (simp add: addresses_def need_def dexKeys_def)
  have c0: "cachePass P cache tokens = (rs0, need)"
    by (simp add: cachePass_eq rs0_def need_def missIdx_def)
  have a1: "applyMap P now tokens need (orEmpty (dexscreenerBatch A addresses)) (Some Dexscreener) rs0
            = rs1"
    by (simp add: applyMap_fillWith rs1_def rs0_def need_def adr)
  have p1: "pendingSlugs P coingecko_id tokens need rs1 = (ids, cgI)"
    unfolding pendingSlugs_eq rs1_def need_def f1 ids_def cgI_def cgKeys_def by simp
  have a2: "(if ids \<noteq> [] then applySlugMap P now coingecko_id tokens cgI
                 (orEmpty (coingeckoBatch A ids)) Coingecko rs1 else rs1) = rs2"
    using ids by (simp add: applySlugMap_fillWith ids_def cgI_def rs1_def rs2_def fillWith_Nil)
  have p2: "pendingSlugs P cmc_slug tokens need rs2 = (slugs, cmcI)"
    unfolding pendingSlugs_eq rs2_def need_def f2 slugs_def cmcI_def cmcKeys_def by simp
  have a3: "(if slugs \<noteq> [] then applySlugMap P now cmc_slug tokens cmcI
                 (orEmpty (cmcBatch A slugs)) Cmc rs2 else rs2) = rs3"
    using slugs by (simp add: applySlugMap_fillWith slugs_def cmcI_def rs2_def rs3_def fillWith_Nil)
  have a4: "fillRemaining P now tokens need rs3 = rs4"
    by (simp add: fillRemaining_fillWith rs4_def rs3_def need_def)
  have calls: "adapterCalls P A cache tokens
       = [DexscreenerCall addresses] @ (if ids \<noteq> [] then [CoingeckoCall ids] else [])
         @ (if slugs \<noteq> [] then [CmcCall slugs] else [])"
    using False unfolding adapterCalls_def adr ids_def slugs_def by simp
  have "fetchAllPrices P A cache now tokens = (rs4, adapterCalls P A cache tokens)"
    unfolding fetchAllPrices_def c0 calls
    by (simp only: prod.case ne if_False Let_def addresses_def [symmetric] a1 p1 a2 p2 a3 a4)
  then have "fetchAllPrices P A cache now tokens = (?rs4, adapterCalls P A cache tokens)"
    by (simp add: rs4_def)
  with res show ?thesis by simp
qed


lemma fetchAllPrices_nth:
  "i < length tokens \<Longrightarrow>
     fst (fetchAllPrices P A cache now tokens) ! i
     = (case lookupCache P cache (tokens ! i) of
          Some c \<Rightarrow> Some c
        | None \<Rightarrow> Some (resolve P A cache now tokens i))"
  by (simp add: fetchAllPrices_eq split: option.splits)

lemma fetchAllPrices_calls: "snd (fetchAllPrices P A cache now tokens) = adapterCalls P A cache tokens"
  by (simp add: fetchAllPrices_eq)

lemma fresh_fields:
  "chain (fresh P now t p s) = SheetTokenRow.chain t"
  "address (fresh P now t p s) = toLowerCase P (contract_address t)"
  "symbol (fresh P now t p s) = SheetTokenRow.symbol t"
  "priceUsd (fresh P now t p s) = p"
  "source (fresh P now t p s) = (if p = None then None else s)"
  "at_iso (fresh P now t p s) = now"
  by (simp_all add: fresh_def toPriceResult_def)

lemma resolve_token:
  "chain (resolve P A cache now tokens i) = SheetTokenRow.chain (tokens ! i)"
  "address (resolve P A cache now tokens i) = toLowerCase P (contract_address (tokens ! i))"
  "symbol (resolve P A cache now tokens i) = SheetTokenRow.symbol (tokens ! i)"
  "source (resolve P A cache now tokens i) = None \<longleftrightarrow> priceUsd (resolve P A cache now tokens i) = None"
  by (auto simp: resolve_def fresh_fields split: option.splits)



section \<open>Properties of the pipeline\<close>

lemmas ex_defs = exTokA_def exTokB_def exTokC_def exCached_def exCache_def exAdapters_def
  unknownAdapters_def exColonCached_def exColonCache_def exTokColon_def exTokCtor_def

lemmas js_defs = jsGet_def jsIn_def jsSet_def emptyObject_def protoKeys_def

lemmas ascii_defs = asciiPlatform_def asciiLower_def asciiLowerChar_def asciiTrim_def
  asciiSpace_def

lemmas run_defs = fetchAllPrices_def cachePass_def applyMap_def pendingSlugs_def applySlugMap_def
  fillRemaining_def orEmpty_def cacheKey_def toPriceResult_def js_defs ascii_defs Let_def

lemmas dex_defs = fetchDexscreenerBatchByTokens_def dexRequests_def dexUniq_def prefill_def
  dexLoop.simps dexBatchSize_def retriesOf_def dexProcessChunk_def groupPairs_def groupStep_def
  pushPair_def assignBest_def assignStep_def dexFallback_def fetchDexscreenerPrice_def
  pickBestPair_def numberOf_def addrKey_def js_defs ascii_defs Let_def

lemmas idx_defs = lookupCache_def missIdx_def dexKeys_def dexPrice_def cgIdx_def cgKeys_def
  cgPrice_def cmcIdx_def cmcKeys_def cmcPrice_def tokenKey_def tokenSlug_def
  orEmpty_def cacheKey_def fresh_def js_defs ascii_defs





text \<open>
  C2, as amended. The normalizer returns the price it is given, and a source that is
  unknown exactly when the price is unknown or the source passed in is unknown: so the
  source is unknown whenever the price is (also when a source is passed in), and for a
  source passed in that is known, source and price are unknown together. Every freshly
  computed entry of the output of \<open>fetchAllPrices\<close> has an unknown source exactly when its
  price is unknown.
\<close>

theorem source_follows_price:
  "(source (toPriceResult P now c a p s sy) = None \<longleftrightarrow> p = None \<or> s = None)
   \<and> (priceUsd (toPriceResult P now c a p s sy) = None \<longleftrightarrow> p = None)
   \<and> (\<forall>i < length tokens. lookupCache P cache (tokens ! i) = None \<longrightarrow>
         (\<exists>r. fst (fetchAllPrices P A cache now tokens) ! i = Some r
             \<and> (source r = None \<longleftrightarrow> priceUsd r = None)))"
proof (intro conjI allI impI)
  show "source (toPriceResult P now c a p s sy) = None \<longleftrightarrow> p = None \<or> s = None"
    by (auto simp: toPriceResult_def)
  show "priceUsd (toPriceResult P now c a p s sy) = None \<longleftrightarrow> p = None"
    by (simp add: toPriceResult_def)
next
  fix i assume "i < length tokens" "lookupCache P cache (tokens ! i) = None"
  then have "fst (fetchAllPrices P A cache now tokens) ! i
               = Some (resolve P A cache now tokens i)"
    by (simp add: fetchAllPrices_nth)
  then show "\<exists>r. fst (fetchAllPrices P A cache now tokens) ! i = Some r
             \<and> (source r = None \<longleftrightarrow> priceUsd r = None)"
    using resolve_token(4) [of P A cache now tokens i]
    by (intro exI [of _ "resolve P A cache now tokens i"]) simp
qed

text \<open>A known source passed with no price is dropped; a fresh entry of a run is consistent.\<close>

theorem source_follows_price_witness:
  "source (toPriceResult asciiPlatform ''now'' ''eth'' ''0xAA'' None (Some Cmc) None) = None
   \<and> priceUsd (toPriceResult asciiPlatform ''now'' ''eth'' ''0xAA'' None (Some Cmc) None) = None
   \<and> (1::nat) < length [exTokA, exTokB]
   \<and> lookupCache asciiPlatform Map.empty ([exTokA, exTokB] ! 1) = None
   \<and> (\<exists>r. fst (fetchAllPrices asciiPlatform exAdapters Map.empty ''now'' [exTokA, exTokB]) ! 1
             = Some r
         \<and> (source r = None) = (priceUsd r = None))"
proof -
  have l: "(1::nat) < length [exTokA, exTokB]"
    "lookupCache asciiPlatform Map.empty ([exTokA, exTokB] ! 1) = None"
    by (simp_all add: lookupCache_def)
  from source_follows_price
    [of asciiPlatform "''now''" "''eth''" "''0xAA''" None "Some Cmc" None "[exTokA, exTokB]"
        Map.empty exAdapters]
  have a: "source (toPriceResult asciiPlatform ''now'' ''eth'' ''0xAA'' None (Some Cmc) None) = None"
    and b: "priceUsd (toPriceResult asciiPlatform ''now'' ''eth'' ''0xAA'' None (Some Cmc) None)
              = None"
    and c: "\<forall>i < length [exTokA, exTokB].
         lookupCache asciiPlatform Map.empty ([exTokA, exTokB] ! i) = None \<longrightarrow>
         (\<exists>r. fst (fetchAllPrices asciiPlatform exAdapters Map.empty ''now'' [exTokA, exTokB]) ! i
                 = Some r
             \<and> (source r = None \<longleftrightarrow> priceUsd r = None))"
    by simp_all
  from c [rule_format, OF l] a b l show ?thesis by simp
qed

text \<open>
  The claim as first stated fails for an unknown source passed with a price: the result has
  the price and no source.
\<close>

theorem null_source_with_price_counterexample:
  "priceUsd (toPriceResult asciiPlatform ''now'' ''eth'' ''0xAA'' (Some (Num 1)) None None)
     = Some (Num 1)
   \<and> source (toPriceResult asciiPlatform ''now'' ''eth'' ''0xAA'' (Some (Num 1)) None None) = None"
  by (simp add: toPriceResult_def)

text \<open>
  C3, as amended. The provider passes run in the order Dexscreener, CoinGecko, CMC, and a
  later pass builds its key list from the indices still unresolved only: when the lookup
  in the Dexscreener map finds a value for the token at index \<open>i\<close>, the slot is filled from
  it, index \<open>i\<close> contributes no key to the CoinGecko key list nor to the CMC key list,
  every key of the CoinGecko list is the slug of an index that the cache and Dexscreener
  left unresolved, and every key of the CMC list is the slug of an index that the cache,
  Dexscreener and CoinGecko left unresolved. (Its slug is in a later list only when
  another, still unresolved token carries the same slug.)
\<close>

theorem later_passes_skip_resolved_indices:
  assumes "i < length tokens"
    and "lookupCache P cache (tokens ! i) = None"
    and "dexPrice P A cache tokens i = Some v"
  shows "fst (fetchAllPrices P A cache now tokens) ! i
           = Some (fresh P now (tokens ! i) (Some v) (Some Dexscreener))
     \<and> snd (fetchAllPrices P A cache now tokens)
         = [DexscreenerCall (dexKeys P cache tokens)]
           @ (if cgKeys P A cache tokens \<noteq> [] then [CoingeckoCall (cgKeys P A cache tokens)]
              else [])
           @ (if cmcKeys P A cache tokens \<noteq> [] then [CmcCall (cmcKeys P A cache tokens)]
              else [])
     \<and> cgKeys P A cache tokens
         = map (\<lambda>j. tokenSlug P coingecko_id (tokens ! j)) (cgIdx P A cache tokens)
     \<and> cmcKeys P A cache tokens
         = map (\<lambda>j. tokenSlug P cmc_slug (tokens ! j)) (cmcIdx P A cache tokens)
     \<and> i \<notin> set (cgIdx P A cache tokens) \<and> i \<notin> set (cmcIdx P A cache tokens)
     \<and> (\<forall>j \<in> set (cgIdx P A cache tokens).
           j < length tokens \<and> lookupCache P cache (tokens ! j) = None
           \<and> dexPrice P A cache tokens j = None)
     \<and> (\<forall>j \<in> set (cmcIdx P A cache tokens).
           j < length tokens \<and> lookupCache P cache (tokens ! j) = None
           \<and> dexPrice P A cache tokens j = None \<and> cgPrice P A cache tokens j = None)"
proof -
  from assms(1,2) have "i \<in> set (missIdx P cache tokens)" by (simp add: missIdx_facts)
  then have ne: "missIdx P cache tokens \<noteq> []" by auto
  have 1: "fst (fetchAllPrices P A cache now tokens) ! i
           = Some (fresh P now (tokens ! i) (Some v) (Some Dexscreener))"
    using assms by (simp add: fetchAllPrices_nth resolve_def)
  have 2: "snd (fetchAllPrices P A cache now tokens)
         = [DexscreenerCall (dexKeys P cache tokens)]
           @ (if cgKeys P A cache tokens \<noteq> [] then [CoingeckoCall (cgKeys P A cache tokens)]
              else [])
           @ (if cmcKeys P A cache tokens \<noteq> [] then [CmcCall (cmcKeys P A cache tokens)]
              else [])"
    using ne by (simp add: fetchAllPrices_calls adapterCalls_def)
  have 3: "i \<notin> set (cgIdx P A cache tokens)" "i \<notin> set (cmcIdx P A cache tokens)"
    using assms(3) by (simp_all add: cgIdx_def cmcIdx_def)
  have 4: "\<forall>j \<in> set (cgIdx P A cache tokens).
           j < length tokens \<and> lookupCache P cache (tokens ! j) = None
           \<and> dexPrice P A cache tokens j = None"
    by (simp add: cgIdx_def missIdx_facts)
  have 5: "\<forall>j \<in> set (cmcIdx P A cache tokens).
           j < length tokens \<and> lookupCache P cache (tokens ! j) = None
           \<and> dexPrice P A cache tokens j = None \<and> cgPrice P A cache tokens j = None"
    by (simp add: cmcIdx_def missIdx_facts)
  from 1 2 3 4 5 show ?thesis by (simp only: cgKeys_def cmcKeys_def simp_thms)
qed

text \<open>
  Two tokens with the same CoinGecko slug; Dexscreener prices the first only. The CoinGecko
  key list is built from index 1 alone, and CMC is not called.
\<close>

theorem later_passes_skip_resolved_indices_witness:
  "(0::nat) < length [exTokA, exTokB]
   \<and> lookupCache asciiPlatform Map.empty ([exTokA, exTokB] ! 0) = None
   \<and> dexPrice asciiPlatform exAdapters Map.empty [exTokA, exTokB] 0 = Some (Num 1)
   \<and> fst (fetchAllPrices asciiPlatform exAdapters Map.empty ''now'' [exTokA, exTokB]) ! 0
       = Some (toPriceResult asciiPlatform ''now'' ''eth'' ''0xAA'' (Some (Num 1))
                 (Some Dexscreener) (Some ''USDC''))
   \<and> snd (fetchAllPrices asciiPlatform exAdapters Map.empty ''now'' [exTokA, exTokB])
       = [DexscreenerCall [''0xAA'', ''0xBB''], CoingeckoCall [''usd-coin'']]
   \<and> cgIdx asciiPlatform exAdapters Map.empty [exTokA, exTokB] = [1]
   \<and> cmcIdx asciiPlatform exAdapters Map.empty [exTokA, exTokB] = []"
proof -
  have h: "(0::nat) < length [exTokA, exTokB]"
    "lookupCache asciiPlatform Map.empty ([exTokA, exTokB] ! 0) = None"
    "dexPrice asciiPlatform exAdapters Map.empty [exTokA, exTokB] 0 = Some (Num 1)"
    by (simp_all add: idx_defs ex_defs upt_rec)
  have k: "dexKeys asciiPlatform Map.empty [exTokA, exTokB] = [''0xAA'', ''0xBB'']"
    "cgIdx asciiPlatform exAdapters Map.empty [exTokA, exTokB] = [1]"
    "cgKeys asciiPlatform exAdapters Map.empty [exTokA, exTokB] = [''usd-coin'']"
    "cmcIdx asciiPlatform exAdapters Map.empty [exTokA, exTokB] = []"
    "cmcKeys asciiPlatform exAdapters Map.empty [exTokA, exTokB] = []"
    "fresh asciiPlatform ''now'' ([exTokA, exTokB] ! 0) (Some (Num 1)) (Some Dexscreener)
       = toPriceResult asciiPlatform ''now'' ''eth'' ''0xAA'' (Some (Num 1)) (Some Dexscreener)
           (Some ''USDC'')"
    by (simp_all add: idx_defs ex_defs upt_rec)
  from later_passes_skip_resolved_indices [OF h, of "''now''"] h k show ?thesis by simp
qed

text \<open>
  The claim as first stated fails on that run: Dexscreener resolves the first token, and
  its CoinGecko slug is in the CoinGecko key list all the same, for the second token.
\<close>

theorem shared_slug_counterexample:
  "map (map_option source)
     (fst (fetchAllPrices asciiPlatform exAdapters Map.empty ''now'' [exTokA, exTokB]))
     = [Some (Some Dexscreener), Some (Some Coingecko)]
   \<and> coingecko_id exTokA = Some ''usd-coin''
   \<and> snd (fetchAllPrices asciiPlatform exAdapters Map.empty ''now'' [exTokA, exTokB])
       = [DexscreenerCall [''0xAA'', ''0xBB''], CoingeckoCall [''usd-coin'']]"
  by (simp add: run_defs ex_defs upt_rec)

text \<open>
  The lookup in the Dexscreener map also finds what the map inherits: the token of address
  \<open>constructor\<close> is resolved by the Dexscreener pass, and CoinGecko is not asked for its
  slug.
\<close>

lemma inherited_key_resolved_by_dexscreener:
  "fetchAllPrices asciiPlatform exAdapters Map.empty ''now'' [exTokA, exTokCtor]
   = ([Some (toPriceResult asciiPlatform ''now'' ''eth'' ''0xAA'' (Some (Num 1))
               (Some Dexscreener) (Some ''USDC'')),
       Some (toPriceResult asciiPlatform ''now'' ''eth'' ''constructor''
               (Some (Inherited ''constructor'')) (Some Dexscreener) None)],
      [DexscreenerCall [''0xAA'', ''constructor'']])"
  by (simp add: run_defs ex_defs upt_rec)

text \<open>
  C4, as amended. For every token whose key the cache answers at the start of a run,
  \<open>fetchAllPrices\<close> returns the cached record unchanged in that slot (with the time stamp
  it was stored with, whatever the clock reads), and the index contributes no key to any
  adapter call: the three key lists are built from indices the cache does not answer.
  (Its address or slug is in a key list only when another, uncached token carries it.)
\<close>

theorem cache_hit_short_circuit:
  assumes "i < length tokens"
    and "lookupCache P cache (tokens ! i) = Some c"
  shows "fst (fetchAllPrices P A cache now tokens) ! i = Some c
     \<and> snd (fetchAllPrices P A cache now tokens)
         = (if missIdx P cache tokens = [] then []
            else [DexscreenerCall (map (\<lambda>j. contract_address (tokens ! j))
                                     (missIdx P cache tokens))]
              @ (if cgIdx P A cache tokens \<noteq> []
                 then [CoingeckoCall (map (\<lambda>j. tokenSlug P coingecko_id (tokens ! j))
                                       (cgIdx P A cache tokens))]
                 else [])
              @ (if cmcIdx P A cache tokens \<noteq> []
                 then [CmcCall (map (\<lambda>j. tokenSlug P cmc_slug (tokens ! j))
                                  (cmcIdx P A cache tokens))]
                 else []))
     \<and> i \<notin> set (missIdx P cache tokens)
     \<and> i \<notin> set (cgIdx P A cache tokens)
     \<and> i \<notin> set (cmcIdx P A cache tokens)"
proof -
  have 1: "fst (fetchAllPrices P A cache now tokens) ! i = Some c"
    using assms by (simp add: fetchAllPrices_nth)
  have 2: "i \<notin> set (missIdx P cache tokens)" using assms by (simp add: missIdx_facts)
  then have 3: "i \<notin> set (cgIdx P A cache tokens)" "i \<notin> set (cmcIdx P A cache tokens)"
    by (simp_all add: cgIdx_def cmcIdx_def)
  have 4: "snd (fetchAllPrices P A cache now tokens)
         = (if missIdx P cache tokens = [] then []
            else [DexscreenerCall (map (\<lambda>j. contract_address (tokens ! j))
                                     (missIdx P cache tokens))]
              @ (if cgIdx P A cache tokens \<noteq> []
                 then [CoingeckoCall (map (\<lambda>j. tokenSlug P coingecko_id (tokens ! j))
                                       (cgIdx P A cache tokens))]
                 else [])
              @ (if cmcIdx P A cache tokens \<noteq> []
                 then [CmcCall (map (\<lambda>j. tokenSlug P cmc_slug (tokens ! j))
                                  (cmcIdx P A cache tokens))]
                 else []))"
    by (simp add: fetchAllPrices_calls adapterCalls_def dexKeys_def cgKeys_def cmcKeys_def)
  from 1 2 3 4 show ?thesis by blast
qed

text \<open>The first of two tokens is cached: the adapters are asked about the second only.\<close>

theorem cache_hit_short_circuit_witness:
  "(0::nat) < length [exTokA, exTokB]
   \<and> lookupCache asciiPlatform exCache ([exTokA, exTokB] ! 0) = Some exCached
   \<and> fst (fetchAllPrices asciiPlatform exAdapters exCache ''later'' [exTokA, exTokB]) ! 0
       = Some exCached
   \<and> at_iso exCached = ''2024-01-01T00:00:00.000Z''
   \<and> missIdx asciiPlatform exCache [exTokA, exTokB] = [1]
   \<and> snd (fetchAllPrices asciiPlatform exAdapters exCache ''later'' [exTokA, exTokB])
       = [DexscreenerCall [''0xBB''], CoingeckoCall [''usd-coin'']]"
proof -
  have h: "(0::nat) < length [exTokA, exTokB]"
    "lookupCache asciiPlatform exCache ([exTokA, exTokB] ! 0) = Some exCached"
    by (simp_all add: idx_defs ex_defs)
  have k: "missIdx asciiPlatform exCache [exTokA, exTokB] = [1]"
    "cgIdx asciiPlatform exAdapters exCache [exTokA, exTokB] = [1]"
    "cmcIdx asciiPlatform exAdapters exCache [exTokA, exTokB] = []"
    "at_iso exCached = ''2024-01-01T00:00:00.000Z''"
    by (simp_all add: idx_defs ex_defs upt_rec)
  have m: "map (\<lambda>j. contract_address ([exTokA, exTokB] ! j)) [1::nat] = [''0xBB'']"
    "map (\<lambda>j. tokenSlug asciiPlatform coingecko_id ([exTokA, exTokB] ! j)) [1::nat]
       = [''usd-coin'']"
    by (simp_all add: idx_defs ex_defs)
  from cache_hit_short_circuit [OF h, of exAdapters "''later''"] h k m show ?thesis by simp
qed

text \<open>
  The claim as first stated fails when an uncached token has the address of the cached one
  on another chain: the address is in the Dexscreener key list.
\<close>

theorem shared_address_counterexample:
  "lookupCache asciiPlatform exCache exTokA = Some exCached
   \<and> contract_address exTokA = ''0xAA''
   \<and> fst (fetchAllPrices asciiPlatform unknownAdapters exCache ''now'' [exTokA, exTokC]) ! 0
       = Some exCached
   \<and> snd (fetchAllPrices asciiPlatform unknownAdapters exCache ''now'' [exTokA, exTokC])
       = [DexscreenerCall [''0xAA'']]"
  by (simp add: run_defs ex_defs upt_rec lookupCache_def)

section \<open>The adapters: slicing, de-duplication, logs\<close>

lemma slices_Nil [simp]: "slices n [] = []"
  by (simp add: slices.simps)

lemma slices_step: "xs \<noteq> [] \<Longrightarrow> 0 < n \<Longrightarrow> slices n xs = take n xs # slices n (drop n xs)"
  by (subst slices.simps) simp

lemma concat_slices: "0 < n \<Longrightarrow> concat (slices n xs) = xs"
proof (induction "length xs" arbitrary: xs rule: less_induct)
  case less
  show ?case
  proof (cases "xs = []")
    case True
    then show ?thesis by simp
  next
    case False
    with less.prems have "length (drop n xs) < length xs" by simp
    from less.hyps [OF this less.prems] False less.prems show ?thesis
      by (simp add: slices_step)
  qed
qed

lemma slices_bounds: "0 < n \<Longrightarrow> ys \<in> set (slices n xs) \<Longrightarrow> ys \<noteq> [] \<and> length ys \<le> n"
proof (induction "length xs" arbitrary: xs rule: less_induct)
  case less
  show ?case
  proof (cases "xs = []")
    case True
    with less.prems show ?thesis by simp
  next
    case False
    with less.prems have l: "length (drop n xs) < length xs" by simp
    from less.prems False have "ys = take n xs \<or> ys \<in> set (slices n (drop n xs))"
      by (simp add: slices_step)
    then show ?thesis
    proof
      assume "ys = take n xs"
      with False less.prems show ?thesis by simp
    next
      assume "ys \<in> set (slices n (drop n xs))"
      from less.hyps [OF l less.prems(1) this] show ?thesis .
    qed
  qed
qed

lemma chunkLoop_slices:
  "0 < n \<Longrightarrow> chunkLoop arr n i out = Some (out @ slices n (drop i arr))"
proof (induction "length arr - i" arbitrary: i out rule: less_induct)
  case less
  show ?case
  proof (cases "i < length arr")
    case True
    with less.prems have "length arr - (i + n) < length arr - i" by simp
    from less.hyps [OF this less.prems]
    have "chunkLoop arr n (i + n) (out @ [take n (drop i arr)])
          = Some ((out @ [take n (drop i arr)]) @ slices n (drop (i + n) arr))" .
    moreover have "slices n (drop i arr) = take n (drop i arr) # slices n (drop (i + n) arr)"
      using True less.prems by (simp add: slices_step add.commute)
    ultimately show ?thesis using True by (subst chunkLoop.simps) simp
  next
    case False
    then show ?thesis by (subst chunkLoop.simps) simp
  qed
qed

lemma chunk_slices: "0 < n \<Longrightarrow> chunk arr n = Some (slices n arr)"
  by (simp add: chunk_def chunkLoop_slices)

lemma coingeckoBatchSize_pos: "0 < coingeckoBatchSize b" "coingeckoBatchSize b \<le> 250"
  by (auto simp: coingeckoBatchSize_def split: option.splits)

lemma dexBatchSize_pos: "0 < dexBatchSize b" "dexBatchSize b \<le> 30"
  by (auto simp: dexBatchSize_def split: option.splits)

lemma cmcConcurrency_pos: "0 < cmcConcurrency b" "cmcConcurrency b \<le> 10"
  by (auto simp: cmcConcurrency_def split: option.splits)

text \<open>The keys after de-duplication.\<close>

lemma uniqueInOrder_fold:
  "distinct acc \<Longrightarrow>
     distinct (fold (\<lambda>x acc. if x \<in> set acc then acc else acc @ [x]) xs acc)
     \<and> set (fold (\<lambda>x acc. if x \<in> set acc then acc else acc @ [x]) xs acc) = set acc \<union> set xs"
  by (induction xs arbitrary: acc) auto

lemma distinct_uniqueInOrder: "distinct (uniqueInOrder xs)"
  and set_uniqueInOrder: "set (uniqueInOrder xs) = set xs"
  using uniqueInOrder_fold [of "[]" xs] by (simp_all add: uniqueInOrder_def)

lemma distinct_slugKeys: "distinct (slugKeys P ids)"
  by (simp add: slugKeys_def distinct_uniqueInOrder)

lemma set_slugKeys: "set (slugKeys P ids) = {toLowerCase P s | s. s \<in> set ids \<and> toLowerCase P s \<noteq> []}"
  by (auto simp: slugKeys_def set_uniqueInOrder)

text \<open>Assignments to a map made for a set of keys.\<close>

lemma jsSet_plain: "k \<notin> protoKeys \<Longrightarrow> jsSet m k v = m\<lparr>own := (own m)(k \<mapsto> v)\<rparr>"
  by (auto simp: jsSet_def protoKeys_def)

lemma keyedBy_empty: "keyedBy emptyObject {}"
  by (simp add: keyedBy_def emptyObject_def)

lemma keyedBy_jsSet_None: "keyedBy m S \<Longrightarrow> keyedBy (jsSet m k None) (insert k S)"
  by (auto simp: keyedBy_def jsSet_def)

lemma keyedBy_prefill_fold:
  "keyedBy m S \<Longrightarrow> keyedBy (fold (\<lambda>k out. jsSet out k None) keys m) (S \<union> set keys)"
proof (induction keys arbitrary: m S)
  case Nil
  then show ?case by simp
next
  case (Cons k keys)
  from Cons.IH [OF keyedBy_jsSet_None [OF Cons.prems, of k]]
  show ?case by (simp add: Un_commute insert_commute)
qed

lemma keyedBy_prefill: "keyedBy (prefill keys) (set keys)"
  using keyedBy_prefill_fold [OF keyedBy_empty, of keys] by (simp add: prefill_def)

lemma keyedBy_jsSet:
  assumes "keyedBy m S" and "k \<in> S"
  shows "keyedBy (jsSet m k v) S" and "dom (own (jsSet m k v)) = insert k (dom (own m))"
  using assms by (auto simp: keyedBy_def jsSet_def)

lemma keyedBy_fold:
  "keyedBy m S \<Longrightarrow> key ` set js \<subseteq> S \<Longrightarrow>
     keyedBy (fold (\<lambda>j out. jsSet out (key j) (val out j)) js m) S
     \<and> dom (own (fold (\<lambda>j out. jsSet out (key j) (val out j)) js m))
         = dom (own m) \<union> key ` set js"
proof (induction js arbitrary: m)
  case Nil
  then show ?case by simp
next
  case (Cons j js)
  let ?m' = "jsSet m (key j) (val m j)"
  from Cons.prems have k: "key j \<in> S" by simp
  from keyedBy_jsSet [OF Cons.prems(1) k, of "val m j"]
  have m': "keyedBy ?m' S" "dom (own ?m') = insert (key j) (dom (own m))" by simp_all
  from Cons.prems have "key ` set js \<subseteq> S" by simp
  from Cons.IH [OF m'(1) this] m'(2) show ?case by (simp only: fold_Cons o_apply) auto
qed

text \<open>The CoinGecko loop: one logged request per part, and the keys of the map are the
  de-duplicated ids.\<close>

lemma coingeckoPart_calls:
  "snd (coingeckoPart P w r part (out, calls)) = calls @ [CoingeckoGet part]"
  by (simp add: coingeckoPart_def Let_def)

lemma coingeckoPart_keys:
  assumes "keyedBy out S" and "set part \<subseteq> S"
  shows "keyedBy (fst (coingeckoPart P w r part (out, calls))) S"
    and "dom (own (fst (coingeckoPart P w r part (out, calls)))) = dom (own out) \<union> set part"
proof -
  define data where "data = (case pRetry (coingeckoSimplePrice w part) r of
                      Inl e \<Rightarrow> Map.empty
                    | Inr d \<Rightarrow> d)"
  have f: "fst (coingeckoPart P w r part (out, calls))
     = fold (\<lambda>j out. jsSet out (id j) (case data j of
                                              Some v \<Rightarrow> Some (numberOf P v)
                                            | None \<Rightarrow> jsGet out j)) part out"
    by (simp add: coingeckoPart_def Let_def data_def)
  from assms(2) have "id ` set part \<subseteq> S" by simp
  from keyedBy_fold [OF assms(1) this, of "\<lambda>out j. case data j of
                                              Some v \<Rightarrow> Some (numberOf P v)
                                            | None \<Rightarrow> jsGet out j"]
  show "keyedBy (fst (coingeckoPart P w r part (out, calls))) S"
    and "dom (own (fst (coingeckoPart P w r part (out, calls)))) = dom (own out) \<union> set part"
    unfolding f by simp_all
qed

lemma coingecko_fold:
  "keyedBy out S \<Longrightarrow> \<forall>p \<in> set parts. set p \<subseteq> S \<Longrightarrow>
   snd (fold (coingeckoPart P w r) parts (out, calls)) = calls @ map CoingeckoGet parts
   \<and> keyedBy (fst (fold (coingeckoPart P w r) parts (out, calls))) S
   \<and> dom (own (fst (fold (coingeckoPart P w r) parts (out, calls))))
       = dom (own out) \<union> set (concat parts)"
proof (induction parts arbitrary: out calls)
  case Nil
  then show ?case by simp
next
  case (Cons p parts)
  obtain out1 calls1 where st: "coingeckoPart P w r p (out, calls) = (out1, calls1)"
    by (cases "coingeckoPart P w r p (out, calls)")
  have c1: "calls1 = calls @ [CoingeckoGet p]"
    using coingeckoPart_calls [of P w r p out calls] st by simp
  from Cons.prems have p: "set p \<subseteq> S" by simp
  from coingeckoPart_keys [OF Cons.prems(1) p, of P w r calls] st
  have k1: "keyedBy out1 S" "dom (own out1) = dom (own out) \<union> set p" by simp_all
  from Cons.prems have "\<forall>p \<in> set parts. set p \<subseteq> S" by simp
  from Cons.IH [OF k1(1) this, of calls1] c1 k1(2) st show ?case by (auto simp: Un_assoc)
qed

lemma fetchCoingecko_eq:
  "fetchCoingeckoBatchByIds P w ids b r
   = Some (fold (coingeckoPart P w (retriesOf r))
             (slices (coingeckoBatchSize b) (slugKeys P ids)) (prefill (slugKeys P ids), []))"
  by (simp add: fetchCoingeckoBatchByIds_def Let_def chunk_slices coingeckoBatchSize_pos)

lemma set_slices: "0 < n \<Longrightarrow> ys \<in> set (slices n xs) \<Longrightarrow> set ys \<subseteq> set xs"
proof -
  assume n: "0 < n" and ys: "ys \<in> set (slices n xs)"
  then have "set ys \<subseteq> set (concat (slices n xs))" by auto
  with n show ?thesis by (simp add: concat_slices)
qed

lemma fetchCoingecko_facts:
  "\<exists>out. fetchCoingeckoBatchByIds P w ids b r
           = Some (out, map CoingeckoGet (slices (coingeckoBatchSize b) (slugKeys P ids)))
         \<and> dom (own out) = set (slugKeys P ids)"
proof -
  let ?uniq = "slugKeys P ids"
  let ?parts = "slices (coingeckoBatchSize b) ?uniq"
  let ?st = "fold (coingeckoPart P w (retriesOf r)) ?parts (prefill ?uniq, [])"
  have parts: "\<forall>p \<in> set ?parts. set p \<subseteq> set ?uniq"
    using set_slices [OF coingeckoBatchSize_pos(1)] by blast
  from coingecko_fold [OF keyedBy_prefill parts, of P w "retriesOf r" "[]"]
  have s: "snd ?st = map CoingeckoGet ?parts"
    and d: "dom (own (fst ?st)) = dom (own (prefill ?uniq)) \<union> set (concat ?parts)"
    by simp_all
  have "dom (own (prefill ?uniq)) \<subseteq> set ?uniq"
    using keyedBy_prefill [of ?uniq] by (simp add: keyedBy_def)
  with d have "dom (own (fst ?st)) = set ?uniq"
    by (auto simp: concat_slices [OF coingeckoBatchSize_pos(1)])
  with s show ?thesis by (intro exI [of _ "fst ?st"]) (simp add: fetchCoingecko_eq prod_eq_iff)
qed

text \<open>The CMC loop: one logged lookup per slug, and the keys of the map are the
  de-duplicated slugs.\<close>

lemma cmcLoop_facts:
  "snd (cmcLoop w c uniq i out calls) = calls @ map CmcLookup (drop i uniq)
   \<and> (keyedBy out S \<and> set (drop i uniq) \<subseteq> S \<longrightarrow>
        keyedBy (fst (cmcLoop w c uniq i out calls)) S
        \<and> dom (own (fst (cmcLoop w c uniq i out calls))) = dom (own out) \<union> set (drop i uniq))"
proof (induction "length uniq - i" arbitrary: i out calls rule: less_induct)
  case less
  define n where "n = cmcConcurrency c"
  show ?case
  proof (cases "i < length uniq")
    case False
    then show ?thesis by (subst (1 2 3) cmcLoop.simps) simp
  next
    case True
    define part where "part = take n (drop i uniq)"
    define out' where
      "out' = fold (\<lambda>j out. jsSet out (part ! j) (map_option Num (map (cmcPriceBySlug w) part ! j)))
                [0..<length part] out"
    define rest where "rest = cmcLoop w c uniq (i + n) out' (calls @ map CmcLookup part)"
    have "length uniq - (i + n) < length uniq - i"
      using True cmcConcurrency_pos [of c] by (simp add: n_def)
    from less.hyps [OF this, of out' "calls @ map CmcLookup part"]
    have ih: "snd rest = (calls @ map CmcLookup part) @ map CmcLookup (drop (i + n) uniq)"
       "keyedBy out' S \<and> set (drop (i + n) uniq) \<subseteq> S \<longrightarrow>
          keyedBy (fst rest) S
          \<and> dom (own (fst rest)) = dom (own out') \<union> set (drop (i + n) uniq)"
      by (simp_all add: rest_def)
    have unf: "cmcLoop w c uniq i out calls = rest"
      using True by (subst cmcLoop.simps) (simp add: Let_def rest_def out'_def part_def n_def)
    have split: "drop i uniq = part @ drop (i + n) uniq"
      unfolding part_def by (metis append_take_drop_id drop_drop add.commute)
    have img: "(!) part ` {0..<length part} = set part"
      by (auto simp: in_set_conv_nth)
    have keys: "keyedBy (fst rest) S
          \<and> dom (own (fst rest)) = dom (own out) \<union> set (drop i uniq)"
      if k: "keyedBy out S" and s: "set (drop i uniq) \<subseteq> S"
    proof -
      from s have ps: "set part \<subseteq> S" and rs: "set (drop (i + n) uniq) \<subseteq> S"
        by (simp_all add: split)
      from ps have "(\<lambda>j. part ! j) ` set [0..<length part] \<subseteq> S" by (simp add: img)
      from keyedBy_fold [OF k this,
          of "\<lambda>out j. map_option Num (map (cmcPriceBySlug w) part ! j)"]
      have o: "keyedBy out' S" "dom (own out') = dom (own out) \<union> set part"
        by (simp_all add: out'_def img)
      from ih(2) o rs show ?thesis by (subst split) (auto simp: Un_assoc)
    qed
    moreover have "snd rest = calls @ map CmcLookup (drop i uniq)"
      using ih(1) by (subst split) simp
    ultimately show ?thesis by (simp only: unf) blast
  qed
qed

lemma fetchCmc_facts:
  "snd (fetchCmcBatchBySlugs P w slugs c) = map CmcLookup (slugKeys P slugs)"
  "dom (own (fst (fetchCmcBatchBySlugs P w slugs c))) = set (slugKeys P slugs)"
proof -
  let ?uniq = "slugKeys P slugs"
  from cmcLoop_facts [of w c ?uniq 0 "prefill ?uniq" "[]" "set ?uniq"] keyedBy_prefill [of ?uniq]
  have s: "snd (cmcLoop w c ?uniq 0 (prefill ?uniq) []) = map CmcLookup ?uniq"
    and d: "dom (own (fst (cmcLoop w c ?uniq 0 (prefill ?uniq) [])))
              = dom (own (prefill ?uniq)) \<union> set ?uniq"
    by simp_all
  have "dom (own (prefill ?uniq)) \<subseteq> set ?uniq"
    using keyedBy_prefill [of ?uniq] by (simp add: keyedBy_def)
  with d have d': "dom (own (fst (cmcLoop w c ?uniq 0 (prefill ?uniq) []))) = set ?uniq" by auto
  from s show "snd (fetchCmcBatchBySlugs P w slugs c) = map CmcLookup (slugKeys P slugs)"
    by (simp add: fetchCmcBatchBySlugs_def Let_def)
  from d' show "dom (own (fst (fetchCmcBatchBySlugs P w slugs c))) = set (slugKeys P slugs)"
    by (simp add: fetchCmcBatchBySlugs_def Let_def)
qed

text \<open>
  The Dexscreener loop. Grouping a response gives, for the keys of the sub-batch, the pairs
  that carry the key, unless a pair carries an inherited key of the sub-batch.
\<close>

lemma fold_groupStep_Inl: "fold (groupStep P S) pairs (Inl e) = Inl e"
  by (induction pairs) (simp_all add: groupStep_def)

lemma groupOf_append: "groupOf P k (xs @ ys) = groupOf P k xs @ groupOf P k ys"
  by (simp add: groupOf_def)

lemma groupOf_Nil [simp]: "groupOf P k [] = []"
  by (simp add: groupOf_def)

lemma set_groupOf: "set (groupOf P k pairs) = {p \<in> set pairs. pairOf P k p}"
  by (auto simp: groupOf_def pairOf_def split: if_splits)

lemma groupOf_empty_iff: "groupOf P k pairs = [] \<longleftrightarrow> (\<forall>p \<in> set pairs. \<not> pairOf P k p)"
proof -
  have "groupOf P k pairs = [] \<longleftrightarrow> set (groupOf P k pairs) = {}" by simp
  then show ?thesis unfolding set_groupOf by auto
qed

lemma clash_append: "clash P S (xs @ ys) \<longleftrightarrow> clash P S xs \<or> clash P S ys"
  by (auto simp: clash_def)

lemma no_clash_inherited:
  "\<not> clash P S xs \<Longrightarrow> k \<in> S \<Longrightarrow> k \<in> protoKeys \<Longrightarrow> groupOf P k xs = []"
  unfolding groupOf_empty_iff by (auto simp: clash_def pairOf_def)

lemma groupStep_grouping:
  assumes "\<not> clash P S xs"
  shows "groupStep P S p (Inr (grouping P S xs))
         = (if clash P S [p] then Inl TypeError else Inr (grouping P S (xs @ [p])))"
proof -
  define bKey where "bKey = addrKey P (baseToken_address p)"
  define qKey where "qKey = addrKey P (quoteToken_address p)"
  define g where "g = grouping P S xs"
  have gp: "groupOf P k [p] = (if bKey = k then [p] else []) @ (if qKey = k then [p] else [])"
    for k by (simp add: groupOf_def bKey_def qKey_def)
  have cl: "clash P S [p] \<longleftrightarrow> bKey \<in> S \<inter> protoKeys \<or> qKey \<in> S \<inter> protoKeys"
    by (simp add: clash_def bKey_def qKey_def)
  have inh: "g k = None" if "k \<in> S" "k \<in> protoKeys" for k
    using no_clash_inherited [OF assms that] by (simp add: g_def grouping_def)
  have gk: "g k = (if k \<in> S \<and> groupOf P k xs \<noteq> [] then Some (groupOf P k xs) else None)" for k
    by (simp add: g_def grouping_def)
  define g1 where "g1 = (if bKey \<in> S then g(bKey \<mapsto> groupOf P bKey xs @ [p]) else g)"
  have b: "(if bKey \<in> S then pushPair bKey p g else Inr g)
           = (if bKey \<in> S \<inter> protoKeys then Inl TypeError else Inr g1)"
    using inh [of bKey] by (auto simp: pushPair_def g1_def gk)
  have g1k: "g1 k = (if k = bKey \<and> bKey \<in> S then Some (groupOf P k xs @ [p]) else g k)" for k
    by (simp add: g1_def)
  define g2 where "g2 = (if qKey \<in> S
                         then g1(qKey \<mapsto> (case g1 qKey of None \<Rightarrow> [] | Some ps \<Rightarrow> ps) @ [p])
                         else g1)"
  have q: "(if qKey \<in> S then pushPair qKey p g1 else Inr g1)
           = (if qKey \<in> S \<inter> protoKeys then Inl TypeError else Inr g2)"
    if "bKey \<notin> S \<inter> protoKeys"
    using that inh [of qKey] by (auto simp: pushPair_def g2_def g1k split: option.splits)
  have g2eq: "g2 = grouping P S (xs @ [p])"
  proof
    fix k
    show "g2 k = grouping P S (xs @ [p]) k"
      by (auto simp: g2_def g1k gk grouping_def groupOf_append gp split: option.splits)
  qed
  have "groupStep P S p (Inr g)
        = (case (if bKey \<in> S then pushPair bKey p g else Inr g) of
             Inl e \<Rightarrow> Inl e
           | Inr g1 \<Rightarrow> if qKey \<in> S then pushPair qKey p g1 else Inr g1)"
    unfolding groupStep_def Let_def bKey_def qKey_def by simp
  also have "\<dots> = (if clash P S [p] then Inl TypeError else Inr g2)"
  proof (cases "bKey \<in> S \<inter> protoKeys")
    case True
    then show ?thesis by (simp only: b cl) simp
  next
    case False
    from q [OF False] False show ?thesis by (simp only: b cl) simp
  qed
  finally show ?thesis by (simp only: g_def g2eq)
qed

lemma fold_groupStep:
  "\<not> clash P S xs \<Longrightarrow>
     fold (groupStep P S) ys (Inr (grouping P S xs))
     = (if clash P S ys then Inl TypeError else Inr (grouping P S (xs @ ys)))"
proof (induction ys arbitrary: xs)
  case Nil
  then show ?case by (simp add: clash_def)
next
  case (Cons p ys)
  have c: "clash P S (p # ys) \<longleftrightarrow> clash P S [p] \<or> clash P S ys"
    by (auto simp: clash_def)
  show ?case
  proof (cases "clash P S [p]")
    case True
    then show ?thesis
      by (simp add: groupStep_grouping [OF Cons.prems] fold_groupStep_Inl c)
  next
    case False
    with Cons.prems have "\<not> clash P S (xs @ [p])" by (simp add: clash_append)
    from Cons.IH [OF this] False show ?thesis
      by (simp add: groupStep_grouping [OF Cons.prems] c)
  qed
qed

lemma groupPairs_eq:
  "groupPairs P S pairs
   = (if clash P S pairs then Inl TypeError else Inr (grouping P S pairs))"
proof -
  have e: "grouping P S [] = Map.empty" by (simp add: grouping_def)
  have "\<not> clash P S []" by (simp add: clash_def)
  from fold_groupStep [OF this, of pairs] show ?thesis by (simp add: groupPairs_def e)
qed

lemma clash_inherited: "clash P S pairs \<Longrightarrow> S \<inter> protoKeys \<noteq> {}"
  by (auto simp: clash_def)

lemma grouping_own: "\<not> clash P S pairs \<Longrightarrow> k \<in> S \<Longrightarrow> k \<in> protoKeys \<Longrightarrow> grouping P S pairs k = None"
  by (simp add: grouping_def no_clash_inherited)

text \<open>The value assigned to a key is \<open>null\<close> exactly when the response holds no priced pair
  for the key.\<close>

lemma grouping_priced:
  "k \<in> S \<Longrightarrow>
     (case grouping P S pairs k of
        None \<Rightarrow> None
      | Some ps \<Rightarrow> (case pickBestPair ps of
                      None \<Rightarrow> None
                    | Some best \<Rightarrow> map_option (numberOf P) (DexPair.priceUsd best))) = None
     \<longleftrightarrow> \<not> pricedFor P pairs k"
proof -
  assume k: "k \<in> S"
  show ?thesis
  proof (cases "groupOf P k pairs = []")
    case True
    then have "\<not> pricedFor P pairs k"
      unfolding groupOf_empty_iff by (auto simp: pricedFor_def)
    with True show ?thesis by (simp add: grouping_def)
  next
    case False
    then have g: "grouping P S pairs k = Some (groupOf P k pairs)"
      using k by (simp add: grouping_def)
    show ?thesis
    proof (cases "pickBestPair (groupOf P k pairs)")
      case None
      then have "\<forall>p \<in> set (groupOf P k pairs). DexPair.priceUsd p = None"
        by (simp add: pickBestPair_None)
      then have "\<not> pricedFor P pairs k"
        unfolding set_groupOf by (auto simp: pricedFor_def)
      with g None show ?thesis by simp
    next
      case (Some best)
      from pickBestPair_Some [OF Some]
      have "best \<in> set pairs" "pairOf P k best" "DexPair.priceUsd best \<noteq> None"
        unfolding set_groupOf by simp_all
      then have "pricedFor P pairs k" by (auto simp: pricedFor_def)
      with g Some \<open>DexPair.priceUsd best \<noteq> None\<close> show ?thesis by simp
    qed
  qed
qed

lemma fold_assignStep_Inl: "fold (assignStep P g) ch (Inl e) = Inl e"
  by (induction ch) (simp_all add: assignStep_def)

lemma assignBest_TypeError:
  "\<exists>c \<in> set ch. snd c \<in> protoKeys \<and> g (snd c) = None \<Longrightarrow>
     assignBest P g ch out = Inl TypeError"
  unfolding assignBest_def
proof (induction ch arbitrary: out)
  case Nil
  then show ?case by simp
next
  case (Cons c ch)
  show ?case
  proof (cases "snd c \<in> protoKeys \<and> g (snd c) = None")
    case True
    then have "assignStep P g c (Inr out) = Inl TypeError" by (simp add: assignStep_def)
    then show ?thesis by (simp only: fold_Cons o_apply fold_assignStep_Inl)
  next
    case False
    with Cons.prems have r: "\<exists>c \<in> set ch. snd c \<in> protoKeys \<and> g (snd c) = None" by auto
    from False obtain out' where "assignStep P g c (Inr out) = Inr out'"
      by (cases "g (snd c)") (auto simp: assignStep_def)
    with Cons.IH [OF r, of out'] show ?thesis by simp
  qed
qed

lemma assignBest_ok:
  "\<forall>c \<in> set ch. snd c \<notin> protoKeys \<Longrightarrow>
     \<exists>out1. assignBest P g ch out = Inr out1
       \<and> inherits out1 = inherits out
       \<and> dom (own out1) = dom (own out) \<union> snd ` set ch
       \<and> (\<forall>c \<in> set ch. jsGet out1 (snd c)
            = (case g (snd c) of
                 None \<Rightarrow> None
               | Some ps \<Rightarrow> (case pickBestPair ps of
                               None \<Rightarrow> None
                             | Some best \<Rightarrow> map_option (numberOf P) (DexPair.priceUsd best))))"
proof (induction ch rule: rev_induct)
  case Nil
  then show ?case by (simp add: assignBest_def)
next
  case (snoc c ch)
  define val where "val = (\<lambda>k. case g k of
                 None \<Rightarrow> None
               | Some ps \<Rightarrow> (case pickBestPair ps of
                               None \<Rightarrow> None
                             | Some best \<Rightarrow> map_option (numberOf P) (DexPair.priceUsd best)))"
  from snoc.prems have ch: "\<forall>c \<in> set ch. snd c \<notin> protoKeys" and c: "snd c \<notin> protoKeys"
    by simp_all
  from snoc.IH [OF ch] obtain out1 where
    a: "assignBest P g ch out = Inr out1" and i: "inherits out1 = inherits out"
    and d: "dom (own out1) = dom (own out) \<union> snd ` set ch"
    and v: "\<forall>c \<in> set ch. jsGet out1 (snd c) = val (snd c)"
    unfolding val_def by blast
  define out2 where "out2 = jsSet out1 (snd c) (val (snd c))"
  have st: "assignStep P g c (Inr out1) = Inr out2"
    using c by (simp add: assignStep_def out2_def val_def split: option.splits)
  have o2: "out2 = out1\<lparr>own := (own out1)(snd c \<mapsto> val (snd c))\<rparr>"
    unfolding out2_def by (rule jsSet_plain [OF c])
  have r: "assignBest P g (ch @ [c]) out = Inr out2"
    using a st by (simp add: assignBest_def)
  have g2: "jsGet out2 k = (if k = snd c then val (snd c) else jsGet out1 k)" for k
    by (auto simp: o2 jsGet_def split: option.splits)
  have "\<forall>c' \<in> set (ch @ [c]). jsGet out2 (snd c') = val (snd c')"
    using v by (auto simp: g2)
  moreover have "inherits out2 = inherits out" using i by (simp add: o2)
  moreover have "dom (own out2) = dom (own out) \<union> snd ` set (ch @ [c])"
    using d by (auto simp: o2)
  ultimately show ?case using r unfolding val_def by blast
qed

text \<open>The fallback asks once for every address of the sub-batch, in order.\<close>

lemma dexFallback_facts:
  "snd (dexFallback P w r ch (out, calls)) = calls @ map (\<lambda>c. DexSingleGet (fst c)) ch
   \<and> ((\<forall>c \<in> set ch. snd c \<notin> protoKeys) \<longrightarrow>
        inherits (fst (dexFallback P w r ch (out, calls))) = inherits out
        \<and> dom (own out) \<subseteq> dom (own (fst (dexFallback P w r ch (out, calls))))
        \<and> dom (own (fst (dexFallback P w r ch (out, calls)))) \<subseteq> dom (own out) \<union> snd ` set ch)"
proof (induction ch arbitrary: out calls)
  case Nil
  then show ?case by (simp add: dexFallback_def)
next
  case (Cons c ch)
  define out1 where
    "out1 = (case pRetry (\<lambda>j. fetchDexscreenerPrice P w (3 * j) (fst c)) r of
                Inr (Some price) \<Rightarrow> jsSet out (snd c) (Some (Num price))
              | _ \<Rightarrow> out)"
  have unf: "dexFallback P w r (c # ch) (out, calls)
             = dexFallback P w r ch (out1, calls @ [DexSingleGet (fst c)])"
    by (simp add: dexFallback_def out1_def)
  have o1: "inherits out1 = inherits out \<and> dom (own out) \<subseteq> dom (own out1)
            \<and> dom (own out1) \<subseteq> insert (snd c) (dom (own out))"
    if "snd c \<notin> protoKeys"
    using that by (auto simp: out1_def jsSet_plain split: sum.splits option.splits)
  let ?F = "dexFallback P w r ch (out1, calls @ [DexSingleGet (fst c)])"
  from Cons.IH [of out1 "calls @ [DexSingleGet (fst c)]"]
  have s: "snd ?F = (calls @ [DexSingleGet (fst c)]) @ map (\<lambda>c. DexSingleGet (fst c)) ch"
    and k: "(\<forall>c \<in> set ch. snd c \<notin> protoKeys) \<longrightarrow>
        inherits (fst ?F) = inherits out1
        \<and> dom (own out1) \<subseteq> dom (own (fst ?F))
        \<and> dom (own (fst ?F)) \<subseteq> dom (own out1) \<union> snd ` set ch"
    by blast+
  show ?case unfolding unf
  proof (intro conjI impI)
    show "snd ?F = calls @ map (\<lambda>c. DexSingleGet (fst c)) (c # ch)" using s by simp
  next
    assume a: "\<forall>c' \<in> set (c # ch). snd c' \<notin> protoKeys"
    then have c: "snd c \<notin> protoKeys" and ch: "\<forall>c \<in> set ch. snd c \<notin> protoKeys" by simp_all
    note o = o1 [OF c]
    from k ch have f: "inherits (fst ?F) = inherits out1"
      "dom (own out1) \<subseteq> dom (own (fst ?F))"
      "dom (own (fst ?F)) \<subseteq> dom (own out1) \<union> snd ` set ch" by blast+
    show "inherits (fst ?F) = inherits out" using f(1) o by simp
    show "dom (own out) \<subseteq> dom (own (fst ?F))" using f(2) o by blast
    from o have "dom (own out1) \<subseteq> insert (snd c) (dom (own out))" by blast
    with f(3) have "dom (own (fst ?F)) \<subseteq> insert (snd c) (dom (own out)) \<union> snd ` set ch"
      by blast
    then show "dom (own (fst ?F)) \<subseteq> dom (own out) \<union> snd ` set (c # ch)"
      by (simp only: list.set image_insert) blast
  qed
qed

text \<open>
  One pass of the loop body: it throws when the sub-batch holds an inherited key; otherwise
  it falls back exactly when the response yields no price, and leaves a map with the keys
  it had and those of the sub-batch.
\<close>

lemma dexProcessChunk_TypeError:
  assumes "set (map snd ch) \<inter> protoKeys \<noteq> {}"
  shows "dexProcessChunk P w r ch pairs (out, calls1) = Inl TypeError"
proof (cases "clash P (set (map snd ch)) pairs")
  case True
  then show ?thesis by (simp add: dexProcessChunk_def groupPairs_eq)
next
  case False
  from assms obtain c where c: "c \<in> set ch" "snd c \<in> protoKeys" by auto
  then have "grouping P (set (map snd ch)) pairs (snd c) = None"
    using grouping_own [OF False, of "snd c"] by simp
  with c have "\<exists>c \<in> set ch. snd c \<in> protoKeys
                  \<and> grouping P (set (map snd ch)) pairs (snd c) = None" by blast
  from assignBest_TypeError [OF this, of P out] False show ?thesis
    by (simp add: dexProcessChunk_def groupPairs_eq)
qed

lemma dexProcessChunk_ok:
  assumes "set (map snd ch) \<inter> protoKeys = {}"
  shows "\<exists>out2. dexProcessChunk P w r ch pairs (out, calls1)
           = Inr (out2, calls1 @ (if yieldsNoPrice P pairs (map snd ch)
                                  then map (\<lambda>c. DexSingleGet (fst c)) ch else []))
         \<and> inherits out2 = inherits out
         \<and> dom (own out2) = dom (own out) \<union> snd ` set ch"
proof -
  let ?S = "set (map snd ch)"
  let ?g = "grouping P ?S pairs"
  from assms have np: "\<forall>c \<in> set ch. snd c \<notin> protoKeys" by auto
  from assms have nc: "\<not> clash P ?S pairs" using clash_inherited by blast
  from assignBest_ok [OF np, of P ?g out] obtain out1 where
    a: "assignBest P ?g ch out = Inr out1" and i: "inherits out1 = inherits out"
    and d: "dom (own out1) = dom (own out) \<union> snd ` set ch"
    and v: "\<forall>c \<in> set ch. jsGet out1 (snd c)
            = (case ?g (snd c) of
                 None \<Rightarrow> None
               | Some ps \<Rightarrow> (case pickBestPair ps of
                               None \<Rightarrow> None
                             | Some best \<Rightarrow> map_option (numberOf P) (DexPair.priceUsd best)))"
    by blast
  have n: "jsGet out1 (snd c) = None \<longleftrightarrow> \<not> pricedFor P pairs (snd c)" if "c \<in> set ch" for c
  proof -
    from that have "snd c \<in> ?S" by simp
    from grouping_priced [OF this, of P pairs] v that show ?thesis by simp
  qed
  then have trig: "(pairs = [] \<or> (\<forall>c \<in> set ch. jsGet out1 (snd c) = None))
                   \<longleftrightarrow> yieldsNoPrice P pairs (map snd ch)"
    by (simp add: yieldsNoPrice_def)
  have unf: "dexProcessChunk P w r ch pairs (out, calls1)
        = Inr (if yieldsNoPrice P pairs (map snd ch) then dexFallback P w r ch (out1, calls1)
               else (out1, calls1))"
    using nc a by (simp add: dexProcessChunk_def groupPairs_eq trig)
  show ?thesis
  proof (cases "yieldsNoPrice P pairs (map snd ch)")
    case False
    with unf i d show ?thesis by simp
  next
    case True
    from dexFallback_facts [of P w r ch out1 calls1] np
    have f: "snd (dexFallback P w r ch (out1, calls1))
               = calls1 @ map (\<lambda>c. DexSingleGet (fst c)) ch"
      "inherits (fst (dexFallback P w r ch (out1, calls1))) = inherits out1"
      "dom (own out1) \<subseteq> dom (own (fst (dexFallback P w r ch (out1, calls1))))"
      "dom (own (fst (dexFallback P w r ch (out1, calls1)))) \<subseteq> dom (own out1) \<union> snd ` set ch"
      by blast+
    from f(3,4) d have "dom (own (fst (dexFallback P w r ch (out1, calls1))))
                        = dom (own out) \<union> snd ` set ch" by blast
    with f(1,2) i True unf show ?thesis
      by (intro exI [of _ "fst (dexFallback P w r ch (out1, calls1))"]) (simp add: prod_eq_iff)
  qed
qed

text \<open>
  The loop issues the expected requests; and when it returns a map, no key is inherited,
  every grouped request has succeeded, and the keys of the map are those it had and those
  of the addresses.
\<close>

lemma dexLoop_facts:
  "snd (dexLoop P w b r uniq i out calls)
     = calls @ dexExpectedCalls P w (retriesOf r) (slices (dexBatchSize b) (drop i uniq))
   \<and> (\<forall>out'. fst (dexLoop P w b r uniq i out calls) = Inr out' \<longrightarrow>
         snd ` set (drop i uniq) \<inter> protoKeys = {}
         \<and> inherits out' = inherits out
         \<and> dom (own out') = dom (own out) \<union> snd ` set (drop i uniq)
         \<and> (\<forall>ch \<in> set (slices (dexBatchSize b) (drop i uniq)).
               \<exists>pairs. pRetry (dexTokensBatch w (map fst ch)) (retriesOf r) = Inr pairs))"
proof (induction "length uniq - i" arbitrary: i out calls rule: less_induct)
  case less
  define n where "n = dexBatchSize b"
  define rt where "rt = retriesOf r"
  have n: "0 < n" by (simp add: n_def dexBatchSize_pos)
  show ?case
  proof (cases "i < length uniq")
    case False
    then have "dexLoop P w b r uniq i out calls = (Inr out, calls)"
      by (subst dexLoop.simps) simp
    with False show ?thesis by simp
  next
    case True
    define ch where "ch = take n (drop i uniq)"
    define rest where "rest = drop (i + n) uniq"
    define calls1 where "calls1 = calls @ [DexBatchGet (map fst ch)]"
    have split: "drop i uniq = ch @ rest"
      unfolding ch_def rest_def by (metis append_take_drop_id drop_drop add.commute)
    have ne: "drop i uniq \<noteq> []" using True by simp
    have sl: "slices n (drop i uniq) = ch # slices n rest"
      using slices_step [OF ne n] by (simp add: ch_def rest_def add.commute)
    have unf: "dexLoop P w b r uniq i out calls
       = (case pRetry (dexTokensBatch w (map fst ch)) rt of
            Inl e \<Rightarrow> (Inl e, calls1)
          | Inr pairs \<Rightarrow>
              (case dexProcessChunk P w rt ch pairs (out, calls1) of
                 Inl e \<Rightarrow> (Inl e, calls1)
               | Inr (out2, calls2) \<Rightarrow> dexLoop P w b r uniq (i + n) out2 calls2))"
      using True unfolding ch_def calls1_def n_def rt_def
      by (subst dexLoop.simps) (simp add: Let_def)
    have ex: "dexExpectedCalls P w rt (slices n (drop i uniq))
       = DexBatchGet (map fst ch) #
         (case pRetry (dexTokensBatch w (map fst ch)) rt of
            Inl e \<Rightarrow> []
          | Inr pairs \<Rightarrow>
              if set (map snd ch) \<inter> protoKeys \<noteq> {} then []
              else (if yieldsNoPrice P pairs (map snd ch) then map (\<lambda>c. DexSingleGet (fst c)) ch else [])
                   @ dexExpectedCalls P w rt (slices n rest))"
      by (simp only: sl dexExpectedCalls.simps)
    have lt: "length uniq - (i + n) < length uniq - i" using True n by simp
    show ?thesis
    proof (cases "pRetry (dexTokensBatch w (map fst ch)) rt")
      case (Inl e)
      then have "dexLoop P w b r uniq i out calls = (Inl e, calls1)" by (simp add: unf)
      moreover from Inl have "dexExpectedCalls P w rt (slices n (drop i uniq))
                                = [DexBatchGet (map fst ch)]"
        by (simp add: ex)
      ultimately show ?thesis by (simp add: calls1_def n_def rt_def)
    next
      case (Inr pairs)
      show ?thesis
      proof (cases "set (map snd ch) \<inter> protoKeys = {}")
        case False
        from dexProcessChunk_TypeError [OF False, of P w rt pairs out calls1] Inr
        have "dexLoop P w b r uniq i out calls = (Inl TypeError, calls1)" by (simp add: unf)
        moreover from Inr False have "dexExpectedCalls P w rt (slices n (drop i uniq))
                                = [DexBatchGet (map fst ch)]"
          by (simp add: ex)
        ultimately show ?thesis by (simp add: calls1_def n_def rt_def)
      next
        case True
        define singles where
          "singles = (if yieldsNoPrice P pairs (map snd ch) then map (\<lambda>c. DexSingleGet (fst c)) ch else [])"
        from dexProcessChunk_ok [OF True, of P w rt pairs out calls1] obtain out2 where
          pc: "dexProcessChunk P w rt ch pairs (out, calls1) = Inr (out2, calls1 @ singles)"
          and i2: "inherits out2 = inherits out"
          and d2: "dom (own out2) = dom (own out) \<union> snd ` set ch"
          unfolding singles_def by blast
        define res where "res = dexLoop P w b r uniq (i + n) out2 (calls1 @ singles)"
        have loop: "dexLoop P w b r uniq i out calls = res"
          using Inr pc by (simp add: unf res_def)
        from less.hyps [OF lt [unfolded n_def], of out2 "calls1 @ singles"]
        have ih1: "snd res = (calls1 @ singles) @ dexExpectedCalls P w rt (slices n rest)"
          and ih2: "\<forall>out'. fst res = Inr out' \<longrightarrow>
              snd ` set rest \<inter> protoKeys = {}
              \<and> inherits out' = inherits out2
              \<and> dom (own out') = dom (own out2) \<union> snd ` set rest
              \<and> (\<forall>ch \<in> set (slices n rest).
                    \<exists>pairs. pRetry (dexTokensBatch w (map fst ch)) rt = Inr pairs)"
          by (simp_all add: res_def n_def rt_def rest_def)
        have e: "dexExpectedCalls P w rt (slices n (drop i uniq))
                 = DexBatchGet (map fst ch) # singles @ dexExpectedCalls P w rt (slices n rest)"
          using Inr True by (simp add: ex singles_def)
        have 1: "snd res = calls @ dexExpectedCalls P w rt (slices n (drop i uniq))"
          using ih1 by (simp add: e calls1_def)
        have 2: "snd ` set (drop i uniq) \<inter> protoKeys = {}
              \<and> inherits out' = inherits out
              \<and> dom (own out') = dom (own out) \<union> snd ` set (drop i uniq)
              \<and> (\<forall>ch \<in> set (slices n (drop i uniq)).
                    \<exists>pairs. pRetry (dexTokensBatch w (map fst ch)) rt = Inr pairs)"
          if "fst res = Inr out'" for out'
        proof -
          from ih2 that have a: "snd ` set rest \<inter> protoKeys = {}"
            and b: "inherits out' = inherits out2"
            and c: "dom (own out') = dom (own out2) \<union> snd ` set rest"
            and d: "\<forall>ch \<in> set (slices n rest).
                    \<exists>pairs. pRetry (dexTokensBatch w (map fst ch)) rt = Inr pairs"
            by blast+
          from True have t: "snd ` set ch \<inter> protoKeys = {}" by simp
          have "snd ` set (drop i uniq) \<inter> protoKeys = {}"
            using a t by (simp only: split set_append image_Un) blast
          moreover have "inherits out' = inherits out" using b i2 by simp
          moreover have "dom (own out') = dom (own out) \<union> snd ` set (drop i uniq)"
            using c d2 by (simp only: split set_append image_Un) blast
          moreover have "\<forall>ch \<in> set (slices n (drop i uniq)).
                    \<exists>pairs. pRetry (dexTokensBatch w (map fst ch)) rt = Inr pairs"
            using d Inr by (simp add: sl)
          ultimately show ?thesis by blast
        qed
        from 1 2 show ?thesis by (simp only: loop n_def rt_def) blast
      qed
    qed
  qed
qed

lemma dexUniq_fold:
  assumes "seen = snd ` set uniq" "distinct (map snd uniq)"
  shows "case fold (\<lambda>r (seen, uniq). if snd r \<in> seen then (seen, uniq)
                                  else (insert (snd r) seen, uniq @ [r])) req (seen, uniq) of
           (seen', uniq') \<Rightarrow>
             seen' = snd ` set uniq' \<and> distinct (map snd uniq')
             \<and> set uniq' \<subseteq> set uniq \<union> set req
             \<and> snd ` set uniq' = snd ` set uniq \<union> snd ` set req
             \<and> (distinct (map snd req) \<and> snd ` set req \<inter> seen = {} \<longrightarrow> uniq' = uniq @ req)"
  using assms
proof (induction req arbitrary: seen uniq)
  case Nil
  then show ?case by simp
next
  case (Cons r req)
  show ?case
  proof (cases "snd r \<in> seen")
    case True
    with Cons.IH [OF Cons.prems] Cons.prems show ?thesis
      by (auto split: prod.splits)
  next
    case False
    have a: "insert (snd r) seen = snd ` set (uniq @ [r])" using Cons.prems by auto
    have b: "distinct (map snd (uniq @ [r]))" using Cons.prems False by auto
    from Cons.IH [OF a b] False show ?thesis
      by (auto split: prod.splits)
  qed
qed

lemma dexUniq_facts:
  "distinct (map snd (dexUniq req))"
  "set (dexUniq req) \<subseteq> set req"
  "snd ` set (dexUniq req) = snd ` set req"
  "distinct (map snd req) \<Longrightarrow> dexUniq req = req"
  using dexUniq_fold [of "{}" "[]" req]
  by (auto simp: dexUniq_def split: prod.splits)

lemma dexRequests_facts:
  "r \<in> set (dexRequests P addresses) \<longleftrightarrow>
     (\<exists>a \<in> set addresses. trim P a \<noteq> [] \<and> r = (trim P a, toLowerCase P (trim P a)))"
  by (auto simp: dexRequests_def)

lemma dexUniq_keys:
  "snd ` set (dexUniq (dexRequests P addresses))
   = {toLowerCase P (trim P a) | a. a \<in> set addresses \<and> trim P a \<noteq> []}"
  unfolding dexUniq_facts(3) using dexRequests_facts [of _ P addresses] by force

lemma dexUniq_key_of_original:
  "map snd (dexUniq (dexRequests P addresses))
   = map (toLowerCase P) (map fst (dexUniq (dexRequests P addresses)))"
proof -
  have "\<forall>r \<in> set (dexUniq (dexRequests P addresses)). snd r = toLowerCase P (fst r)"
    using dexUniq_facts(2) [of "dexRequests P addresses"] dexRequests_facts [of _ P addresses]
    by fastforce
  then show ?thesis by simp
qed

lemma dexUniq_originals_distinct: "distinct (map fst (dexUniq (dexRequests P addresses)))"
  using dexUniq_facts(1) [of "dexRequests P addresses"]
  unfolding dexUniq_key_of_original by (auto simp: distinct_map inj_on_def)

lemma inherits_prefill_fold:
  "''__proto__'' \<notin> set keys \<Longrightarrow>
     inherits (fold (\<lambda>k out. jsSet out k None) keys m) = inherits m"
  by (induction keys arbitrary: m) (auto simp: jsSet_def)

lemma prefill_plain:
  assumes "set keys \<inter> protoKeys = {}"
  shows "inherits (prefill keys)" and "dom (own (prefill keys)) = set keys"
proof -
  from assms have p: "''__proto__'' \<notin> set keys" by (auto simp: protoKeys_def)
  from inherits_prefill_fold [OF p, of emptyObject] show "inherits (prefill keys)"
    by (simp add: prefill_def emptyObject_def)
  from keyedBy_prefill [of keys] p show "dom (own (prefill keys)) = set keys"
    by (auto simp: keyedBy_def)
qed

lemma fetchDex_calls:
  "snd (fetchDexscreenerBatchByTokens P w addresses b r)
   = dexExpectedCalls P w (retriesOf r)
       (slices (dexBatchSize b) (dexUniq (dexRequests P addresses)))"
  using dexLoop_facts [of P w b r "dexUniq (dexRequests P addresses)" 0
      "prefill (map snd (dexUniq (dexRequests P addresses)))" "[]"]
  by (simp add: fetchDexscreenerBatchByTokens_def Let_def)

lemma fetchDex_result:
  assumes "fst (fetchDexscreenerBatchByTokens P w addresses b r) = Inr out"
  shows "snd ` set (dexUniq (dexRequests P addresses)) \<inter> protoKeys = {}"
    and "inherits out"
    and "dom (own out) = snd ` set (dexUniq (dexRequests P addresses))"
    and "\<forall>ch \<in> set (slices (dexBatchSize b) (dexUniq (dexRequests P addresses))).
           \<exists>pairs. pRetry (dexTokensBatch w (map fst ch)) (retriesOf r) = Inr pairs"
proof -
  let ?uniq = "dexUniq (dexRequests P addresses)"
  from assms have "fst (dexLoop P w b r ?uniq 0 (prefill (map snd ?uniq)) []) = Inr out"
    by (simp add: fetchDexscreenerBatchByTokens_def Let_def)
  with dexLoop_facts [of P w b r ?uniq 0 "prefill (map snd ?uniq)" "[]"]
  have a: "snd ` set ?uniq \<inter> protoKeys = {}"
    and b: "inherits out = inherits (prefill (map snd ?uniq))"
    and c: "dom (own out) = dom (own (prefill (map snd ?uniq))) \<union> snd ` set ?uniq"
    and d: "\<forall>ch \<in> set (slices (dexBatchSize b) ?uniq).
           \<exists>pairs. pRetry (dexTokensBatch w (map fst ch)) (retriesOf r) = Inr pairs"
    by simp_all
  from a have "set (map snd ?uniq) \<inter> protoKeys = {}" by simp
  note p = prefill_plain [OF this]
  from a show "snd ` set ?uniq \<inter> protoKeys = {}" .
  from b p(1) show "inherits out" by simp
  from c p(2) show "dom (own out) = snd ` set ?uniq" by simp
  from d show "\<forall>ch \<in> set (slices (dexBatchSize b) ?uniq).
           \<exists>pairs. pRetry (dexTokensBatch w (map fst ch)) (retriesOf r) = Inr pairs" .
qed

text \<open>Reading the expected requests.\<close>

lemma groupedCalls_append [simp]: "groupedCalls (xs @ ys) = groupedCalls xs @ groupedCalls ys"
  by (simp add: groupedCalls_def)

lemma singleCalls_append [simp]: "singleCalls (xs @ ys) = singleCalls xs @ singleCalls ys"
  by (simp add: singleCalls_def)

lemma groupedCalls_simps [simp]:
  "groupedCalls [] = []"
  "groupedCalls (DexBatchGet ks # cs) = DexBatchGet ks # groupedCalls cs"
  "groupedCalls (DexSingleGet a # cs) = groupedCalls cs"
  by (simp_all add: groupedCalls_def)

lemma singleCalls_simps [simp]:
  "singleCalls [] = []"
  "singleCalls (DexBatchGet ks # cs) = singleCalls cs"
  "singleCalls (DexSingleGet a # cs) = DexSingleGet a # singleCalls cs"
  by (simp_all add: singleCalls_def)

lemma calls_of_singles [simp]:
  "groupedCalls (map (\<lambda>c. DexSingleGet (fst c)) ch) = []"
  "singleCalls (map (\<lambda>c. DexSingleGet (fst c)) ch) = map (\<lambda>c. DexSingleGet (fst c)) ch"
  "concat (map carried (map (\<lambda>c. DexSingleGet (fst c)) ch)) = map fst ch"
  "concat (map (carried \<circ> (\<lambda>c. DexSingleGet (fst c))) ch) = map fst ch"
  by (induction ch) simp_all

lemma expected_grouped_prefix:
  "prefix (groupedCalls (dexExpectedCalls P w r chs)) (map (\<lambda>ch. DexBatchGet (map fst ch)) chs)"
  by (induction chs) (auto split: sum.splits)

lemma expected_grouped_all:
  "\<forall>ch \<in> set chs. set (map snd ch) \<inter> protoKeys = {}
       \<and> (\<exists>pairs. pRetry (dexTokensBatch w (map fst ch)) r = Inr pairs) \<Longrightarrow>
     groupedCalls (dexExpectedCalls P w r chs) = map (\<lambda>ch. DexBatchGet (map fst ch)) chs"
  by (induction chs) (auto split: sum.splits)

lemma expected_singles_subseq:
  "subseq (concat (map carried (singleCalls (dexExpectedCalls P w r chs))))
     (concat (map (map fst) chs))"
proof (induction chs)
  case Nil
  then show ?case by simp
next
  case (Cons ch chs)
  have a: "subseq (map fst ch @ concat (map carried (singleCalls (dexExpectedCalls P w r chs))))
             (map fst ch @ concat (map (map fst) chs))"
    using Cons.IH by (simp add: subseq_append')
  have b: "subseq (concat (map carried (singleCalls (dexExpectedCalls P w r chs))))
             (map fst ch @ concat (map (map fst) chs))"
    using Cons.IH by (rule list_emb_append2)
  from a b show ?case by (auto split: sum.splits)
qed

lemma subseq_distinct: "subseq xs ys \<Longrightarrow> distinct ys \<Longrightarrow> distinct xs"
proof (induction rule: list_emb.induct)
  case (list_emb_Nil ys)
  then show ?case by simp
next
  case (list_emb_Cons xs ys y)
  then show ?case by simp
next
  case (list_emb_Cons2 x y xs ys)
  then have "x \<notin> set ys" by simp
  moreover have "set xs \<subseteq> set ys"
    using list_emb_Cons2.hyps(2) by (auto elim: list_emb_set)
  ultimately show ?case using list_emb_Cons2 by auto
qed

lemma concat_carried_batches:
  "concat (map carried (map (\<lambda>ch. DexBatchGet (map fst ch)) chs)) = concat (map (map fst) chs)"
  by (induction chs) simp_all

lemma prefix_concat: "prefix xs ys \<Longrightarrow> prefix (concat xs) (concat ys)"
  by (auto simp: prefix_def)

lemma concat_map_fst: "concat (map (map f) xss) = map f (concat xss)"
  by (induction xss) simp_all

lemma dex_grouped_prefix:
  "prefix (concat (map carried (groupedCalls (snd (fetchDexscreenerBatchByTokens P w addresses b r)))))
     (map fst (dexUniq (dexRequests P addresses)))"
proof -
  let ?uniq = "dexUniq (dexRequests P addresses)"
  let ?g = "groupedCalls (snd (fetchDexscreenerBatchByTokens P w addresses b r))"
  let ?sl = "slices (dexBatchSize b) ?uniq"
  have "prefix ?g (map (\<lambda>ch. DexBatchGet (map fst ch)) ?sl)"
    unfolding fetchDex_calls by (rule expected_grouped_prefix)
  then have "prefix (map carried ?g) (map carried (map (\<lambda>ch. DexBatchGet (map fst ch)) ?sl))"
    by (rule map_mono_prefix)
  then have "prefix (concat (map carried ?g))
               (concat (map carried (map (\<lambda>ch. DexBatchGet (map fst ch)) ?sl)))"
    by (rule prefix_concat)
  then show ?thesis
    by (simp only: concat_carried_batches concat_map_fst concat_slices [OF dexBatchSize_pos(1)])
qed

lemma dex_singles_subseq:
  "subseq (concat (map carried (singleCalls (snd (fetchDexscreenerBatchByTokens P w addresses b r)))))
     (map fst (dexUniq (dexRequests P addresses)))"
  using expected_singles_subseq [of P w "retriesOf r"
      "slices (dexBatchSize b) (dexUniq (dexRequests P addresses))"]
  by (simp only: fetchDex_calls concat_map_fst concat_slices [OF dexBatchSize_pos(1)])

lemma dex_grouped_all:
  assumes "fst (fetchDexscreenerBatchByTokens P w addresses b r) = Inr out"
  shows "concat (map carried (groupedCalls (snd (fetchDexscreenerBatchByTokens P w addresses b r))))
         = map fst (dexUniq (dexRequests P addresses))"
proof -
  let ?uniq = "dexUniq (dexRequests P addresses)"
  let ?sl = "slices (dexBatchSize b) ?uniq"
  note r = fetchDex_result [OF assms]
  have "\<forall>ch \<in> set ?sl. set (map snd ch) \<inter> protoKeys = {}
       \<and> (\<exists>pairs. pRetry (dexTokensBatch w (map fst ch)) (retriesOf r) = Inr pairs)"
  proof
    fix ch assume ch: "ch \<in> set ?sl"
    from set_slices [OF dexBatchSize_pos(1) ch] r(1)
    have "set (map snd ch) \<inter> protoKeys = {}" by auto
    with r(4) ch show "set (map snd ch) \<inter> protoKeys = {}
       \<and> (\<exists>pairs. pRetry (dexTokensBatch w (map fst ch)) (retriesOf r) = Inr pairs)" by blast
  qed
  from expected_grouped_all [OF this, of P]
  have "groupedCalls (snd (fetchDexscreenerBatchByTokens P w addresses b r))
        = map (\<lambda>ch. DexBatchGet (map fst ch)) ?sl"
    by (simp only: fetchDex_calls)
  then show ?thesis
    by (simp only: concat_carried_batches concat_map_fst concat_slices [OF dexBatchSize_pos(1)])
qed

section \<open>Properties of the adapters\<close>

text \<open>
  C5. A network call that exhausts its retries should contribute \<open>null\<close> for its keys and
  never raise out of the batch function. The Dexscreener batch function does raise: with
  one address and a network where every request fails, the three attempts of the grouped
  request fail and the error is the result of the function, after one logged request and
  without any map.
\<close>

theorem dexscreener_batch_raises:
  "fetchDexscreenerBatchByTokens asciiPlatform failingUpstream [''0xaa''] (Some 30) (Some 2)
     = (Inl RequestFailed, [DexBatchGet [''0xaa'']])"
  by (simp add: dex_defs failingUpstream_def numeral_2_eq_2)

theorem dexscreener_batch_raises_witness:
  "fst (fetchDexscreenerBatchByTokens asciiPlatform failingUpstream [''0xaa''] (Some 30) (Some 2))
     = Inl RequestFailed"
  using dexscreener_batch_raises by simp

text \<open>
  The CoinGecko and CMC batch functions have no failing result: the first always returns,
  also on that network, with \<open>null\<close> for the keys of a failed request.
\<close>

lemma coingecko_batch_survives_failure:
  "\<exists>out calls. fetchCoingeckoBatchByIds asciiPlatform failingUpstream [''pepe''] (Some 150) (Some 2)
                  = Some (out, calls) \<and> own out ''pepe'' = Some None"
  by (simp add: fetchCoingeckoBatchByIds_def chunk_slices coingeckoBatchSize_pos slugKeys_def
      uniqueInOrder_def prefill_def coingeckoPart_def retriesOf_def failingUpstream_def
      slices.simps coingeckoBatchSize_def js_defs ascii_defs Let_def numeral_2_eq_2)

text \<open>
  C6, as amended. For every batch function and every list of input keys, the keys of the
  returned map are exactly the normalized forms (trimmed and lower-cased for Dexscreener,
  lower-cased for CoinGecko and CMC) of the input keys that are not empty once normalized
  (for Dexscreener: once trimmed), each bound to a price or to \<open>null\<close>: a key with
  upper-case characters, surrounding white space or duplicates is found under its normalized
  form, and a key that is empty once normalized has no entry. For Dexscreener this holds
  whenever the function returns a map; the CoinGecko and CMC functions always return one.
\<close>

theorem adapter_maps_cover_normalized_keys:
  "(\<forall>out. fst (fetchDexscreenerBatchByTokens P w keys b r) = Inr out \<longrightarrow>
       dom (own out) = {toLowerCase P (trim P k) | k. k \<in> set keys \<and> trim P k \<noteq> []})
   \<and> (\<exists>out calls. fetchCoingeckoBatchByIds P w keys b r = Some (out, calls)
         \<and> dom (own out) = {toLowerCase P k | k. k \<in> set keys \<and> toLowerCase P k \<noteq> []})
   \<and> dom (own (fst (fetchCmcBatchBySlugs P w keys c)))
       = {toLowerCase P k | k. k \<in> set keys \<and> toLowerCase P k \<noteq> []}"
proof (intro conjI allI impI)
  fix out
  assume "fst (fetchDexscreenerBatchByTokens P w keys b r) = Inr out"
  from fetchDex_result(3) [OF this]
  show "dom (own out) = {toLowerCase P (trim P k) | k. k \<in> set keys \<and> trim P k \<noteq> []}"
    by (simp only: dexUniq_keys)
next
  from fetchCoingecko_facts [of P w keys b r]
  show "\<exists>out calls. fetchCoingeckoBatchByIds P w keys b r = Some (out, calls)
         \<and> dom (own out) = {toLowerCase P k | k. k \<in> set keys \<and> toLowerCase P k \<noteq> []}"
    unfolding set_slugKeys by blast
next
  show "dom (own (fst (fetchCmcBatchBySlugs P w keys c)))
       = {toLowerCase P k | k. k \<in> set keys \<and> toLowerCase P k \<noteq> []}"
    by (simp only: fetchCmc_facts(2) set_slugKeys)
qed

lemma Collect_list: "{f k | k. k \<in> set xs \<and> Q k} = set (map f (filter Q xs))"
  by auto

text \<open>A key with an upper-case letter and a trailing blank, and an empty key.\<close>

theorem adapter_maps_cover_normalized_keys_witness:
  "trim asciiPlatform ''Pepe '' = ''Pepe'' \<and> toLowerCase asciiPlatform ''Pepe '' = ''pepe ''
   \<and> toLowerCase asciiPlatform ''Pepe'' = ''pepe''
   \<and> (\<exists>out. fst (fetchDexscreenerBatchByTokens asciiPlatform emptyUpstream [''Pepe '', '''']
                   None None) = Inr out
          \<and> dom (own out) = {''pepe''})
   \<and> (\<exists>out calls. fetchCoingeckoBatchByIds asciiPlatform emptyUpstream [''Pepe '', ''''] None None
                     = Some (out, calls)
          \<and> dom (own out) = {''pepe ''})
   \<and> dom (own (fst (fetchCmcBatchBySlugs asciiPlatform emptyUpstream [''Pepe '', ''''] None)))
       = {''pepe ''}"
proof -
  have ok: "\<exists>out. fst (fetchDexscreenerBatchByTokens asciiPlatform emptyUpstream [''Pepe '', '''']
                         None None) = Inr out"
    by (simp add: dex_defs emptyUpstream_def numeral_2_eq_2)
  have s: "trim asciiPlatform ''Pepe '' = ''Pepe''" "toLowerCase asciiPlatform ''Pepe '' = ''pepe ''"
    "toLowerCase asciiPlatform ''Pepe'' = ''pepe''"
    "trim asciiPlatform '''' = ''''" "toLowerCase asciiPlatform '''' = ''''"
    by (simp_all add: ascii_defs)
  have k: "{toLowerCase asciiPlatform (trim asciiPlatform k) | k.
              k \<in> set [''Pepe '', ''''] \<and> trim asciiPlatform k \<noteq> []} = {''pepe''}"
    "{toLowerCase asciiPlatform k | k.
        k \<in> set [''Pepe '', ''''] \<and> toLowerCase asciiPlatform k \<noteq> []} = {''pepe ''}"
    by (simp_all only: Collect_list) (simp_all add: s)
  from adapter_maps_cover_normalized_keys
    [of asciiPlatform emptyUpstream "[''Pepe '', '''']" None None None] ok s
  show ?thesis unfolding k by auto
qed

text \<open>
  The claim as first stated fails: the key as passed in is not a key of the map, only its
  normalized form is, and an empty key has no entry at all.
\<close>

theorem adapter_map_misses_raw_key:
  "(case fst (fetchDexscreenerBatchByTokens asciiPlatform emptyUpstream ['' 0xAA '', '''']
               (Some 30) (Some 2)) of
      Inl e \<Rightarrow> None
    | Inr out \<Rightarrow> Some (jsIn out '' 0xAA '', jsIn out '''', own out ''0xaa''))
   = Some (False, False, Some None)"
  by (simp add: dex_defs emptyUpstream_def numeral_2_eq_2)

text \<open>
  C7, as amended. Every adapter de-duplicates its input keys before calling upstream. The
  Dexscreener function keeps one address for every lower-cased key and cuts the addresses
  kept into sub-batches; its requests are, for each sub-batch in turn, one grouped request
  and then, exactly when the response to it is empty or holds a priced pair for no key of
  the sub-batch, one single lookup for each address of the sub-batch, up to the first
  sub-batch whose grouped request exhausts its retries or which holds a key that objects
  inherit. So the identifiers carried by the grouped requests are pairwise distinct, those
  of the single lookups too, and when the function returns a map the grouped requests
  carry exactly the normalized non-empty input keys. The identifiers carried by the
  CoinGecko requests and by the CMC lookups are pairwise distinct and are exactly the
  normalized non-empty input keys.
\<close>

theorem adapters_deduplicate_keys:
  "snd (fetchDexscreenerBatchByTokens P w keys b r)
     = dexExpectedCalls P w (retriesOf r)
         (slices (dexBatchSize b) (dexUniq (dexRequests P keys)))
   \<and> distinct (map snd (dexUniq (dexRequests P keys)))
   \<and> set (dexUniq (dexRequests P keys))
       \<subseteq> {(trim P k, toLowerCase P (trim P k)) | k. k \<in> set keys \<and> trim P k \<noteq> []}
   \<and> snd ` set (dexUniq (dexRequests P keys))
       = {toLowerCase P (trim P k) | k. k \<in> set keys \<and> trim P k \<noteq> []}
   \<and> distinct (map (toLowerCase P)
       (concat (map carried (groupedCalls (snd (fetchDexscreenerBatchByTokens P w keys b r))))))
   \<and> distinct (map (toLowerCase P)
       (concat (map carried (singleCalls (snd (fetchDexscreenerBatchByTokens P w keys b r))))))
   \<and> (\<forall>out. fst (fetchDexscreenerBatchByTokens P w keys b r) = Inr out \<longrightarrow>
         set (map (toLowerCase P)
               (concat (map carried
                  (groupedCalls (snd (fetchDexscreenerBatchByTokens P w keys b r))))))
         = {toLowerCase P (trim P k) | k. k \<in> set keys \<and> trim P k \<noteq> []})
   \<and> (\<exists>out calls. fetchCoingeckoBatchByIds P w keys b r = Some (out, calls)
         \<and> distinct (concat (map carried calls))
         \<and> set (concat (map carried calls))
             = {toLowerCase P k | k. k \<in> set keys \<and> toLowerCase P k \<noteq> []})
   \<and> distinct (concat (map carried (snd (fetchCmcBatchBySlugs P w keys c))))
   \<and> set (concat (map carried (snd (fetchCmcBatchBySlugs P w keys c))))
       = {toLowerCase P k | k. k \<in> set keys \<and> toLowerCase P k \<noteq> []}"
proof -
  let ?uniq = "dexUniq (dexRequests P keys)"
  let ?calls = "snd (fetchDexscreenerBatchByTokens P w keys b r)"
  have 0: "?calls = dexExpectedCalls P w (retriesOf r) (slices (dexBatchSize b) ?uniq)"
    by (rule fetchDex_calls)
  have u1: "distinct (map snd ?uniq)" by (rule dexUniq_facts(1))
  have u2: "set ?uniq \<subseteq> {(trim P k, toLowerCase P (trim P k)) | k. k \<in> set keys \<and> trim P k \<noteq> []}"
    using dexUniq_facts(2) [of "dexRequests P keys"] dexRequests_facts [of _ P keys] by blast
  have u3: "snd ` set ?uniq = {toLowerCase P (trim P k) | k. k \<in> set keys \<and> trim P k \<noteq> []}"
    by (rule dexUniq_keys)
  have dk: "distinct (map (toLowerCase P) (map fst ?uniq))"
    using u1 by (simp only: dexUniq_key_of_original)
  have "subseq (concat (map carried (groupedCalls ?calls))) (map fst ?uniq)"
    using dex_grouped_prefix [of P w keys b r] by (rule prefix_imp_subseq)
  then have "subseq (map (toLowerCase P) (concat (map carried (groupedCalls ?calls))))
               (map (toLowerCase P) (map fst ?uniq))" by (rule subseq_map)
  then have 1: "distinct (map (toLowerCase P) (concat (map carried (groupedCalls ?calls))))"
    using dk by (rule subseq_distinct)
  have "subseq (map (toLowerCase P) (concat (map carried (singleCalls ?calls))))
               (map (toLowerCase P) (map fst ?uniq))"
    using dex_singles_subseq [of P w keys b r] by (rule subseq_map)
  then have 2: "distinct (map (toLowerCase P) (concat (map carried (singleCalls ?calls))))"
    using dk by (rule subseq_distinct)
  have 3: "set (map (toLowerCase P) (concat (map carried (groupedCalls ?calls))))
         = {toLowerCase P (trim P k) | k. k \<in> set keys \<and> trim P k \<noteq> []}"
    if "fst (fetchDexscreenerBatchByTokens P w keys b r) = Inr out" for out
  proof -
    from dex_grouped_all [OF that]
    have "set (map (toLowerCase P) (concat (map carried (groupedCalls ?calls))))
               = set (map snd ?uniq)"
      by (simp only: dexUniq_key_of_original)
    then show ?thesis using u3 by simp
  qed
  from fetchCoingecko_facts [of P w keys b r] obtain out where
    o: "fetchCoingeckoBatchByIds P w keys b r
          = Some (out, map CoingeckoGet (slices (coingeckoBatchSize b) (slugKeys P keys)))"
    by blast
  have cc: "concat (map carried (map CoingeckoGet xss)) = concat xss" for xss
    by (induction xss) simp_all
  have cg: "concat (map carried (map CoingeckoGet (slices (coingeckoBatchSize b) (slugKeys P keys))))
            = slugKeys P keys"
    by (simp only: cc concat_slices [OF coingeckoBatchSize_pos(1)])
  have 4: "\<exists>out calls. fetchCoingeckoBatchByIds P w keys b r = Some (out, calls)
         \<and> distinct (concat (map carried calls))
         \<and> set (concat (map carried calls))
             = {toLowerCase P k | k. k \<in> set keys \<and> toLowerCase P k \<noteq> []}"
    using o cg distinct_slugKeys [of P keys] set_slugKeys [of P keys]
    by (metis (no_types, lifting))
  have cm: "concat (map carried (map CmcLookup xs)) = xs" for xs
    by (induction xs) simp_all
  have cmc: "concat (map carried (snd (fetchCmcBatchBySlugs P w keys c))) = slugKeys P keys"
    by (simp only: fetchCmc_facts(1) cm)
  have 5: "distinct (concat (map carried (snd (fetchCmcBatchBySlugs P w keys c))))"
    and 6: "set (concat (map carried (snd (fetchCmcBatchBySlugs P w keys c))))
       = {toLowerCase P k | k. k \<in> set keys \<and> toLowerCase P k \<noteq> []}"
    unfolding cmc by (rule distinct_slugKeys, rule set_slugKeys)
  from 0 u1 u2 u3 1 2 3 4 5 6 show ?thesis by blast
qed

lemmas up_defs = emptyUpstream_def failingUpstream_def pairUpstream_def zeroUpstream_def
  pepeUpstream_def

text \<open>
  An address passed twice, in two spellings, is requested once; so is a slug. On a network
  that knows no pair the fallback follows the grouped request; on one that answers with a
  priced pair of the address it does not.
\<close>

theorem adapters_deduplicate_keys_witness:
  "(\<exists>out. fst (fetchDexscreenerBatchByTokens asciiPlatform emptyUpstream
                  [''0xAA'', ''0xaa '', ''0xBB''] None None) = Inr out)
   \<and> dexUniq (dexRequests asciiPlatform [''0xAA'', ''0xaa '', ''0xBB''])
       = [(''0xAA'', ''0xaa''), (''0xBB'', ''0xbb'')]
   \<and> snd (fetchDexscreenerBatchByTokens asciiPlatform emptyUpstream
            [''0xAA'', ''0xaa '', ''0xBB''] None None)
       = [DexBatchGet [''0xAA'', ''0xBB''], DexSingleGet ''0xAA'', DexSingleGet ''0xBB'']
   \<and> yieldsNoPrice asciiPlatform [] [''0xaa'', ''0xbb'']
   \<and> snd (fetchDexscreenerBatchByTokens asciiPlatform pairUpstream [''0xAA'', ''0xaa ''] None None)
       = [DexBatchGet [''0xAA'']]
   \<and> \<not> yieldsNoPrice asciiPlatform [exPairA] [''0xaa'']
   \<and> distinct (map (toLowerCase asciiPlatform) (concat (map carried (groupedCalls
         (snd (fetchDexscreenerBatchByTokens asciiPlatform emptyUpstream
                [''0xAA'', ''0xaa '', ''0xBB''] None None))))))
   \<and> set (map (toLowerCase asciiPlatform) (concat (map carried (groupedCalls
         (snd (fetchDexscreenerBatchByTokens asciiPlatform emptyUpstream
                [''0xAA'', ''0xaa '', ''0xBB''] None None))))))
       = {''0xaa'', ''0xbb''}
   \<and> snd (fetchCmcBatchBySlugs asciiPlatform emptyUpstream [''Pepe'', ''pepe'', ''doge''] None)
       = [CmcLookup ''pepe'', CmcLookup ''doge'']
   \<and> distinct (concat (map carried
        (snd (fetchCmcBatchBySlugs asciiPlatform emptyUpstream [''Pepe'', ''pepe'', ''doge''] None))))"
proof -
  let ?keys = "[''0xAA'', ''0xaa '', ''0xBB'']"
  let ?run = "fetchDexscreenerBatchByTokens asciiPlatform emptyUpstream ?keys None None"
  have ok: "\<exists>out. fst ?run = Inr out"
    by (simp add: dex_defs emptyUpstream_def numeral_2_eq_2)
  have u: "dexUniq (dexRequests asciiPlatform ?keys) = [(''0xAA'', ''0xaa''), (''0xBB'', ''0xbb'')]"
    by (simp add: dexUniq_def dexRequests_def ascii_defs)
  have sl: "slices (dexBatchSize None) [(''0xAA'', ''0xaa''), (''0xBB'', ''0xbb'')]
            = [[(''0xAA'', ''0xaa''), (''0xBB'', ''0xbb'')]]"
    by (simp add: slices.simps dexBatchSize_def)
  have sl1: "slices (dexBatchSize None) [(''0xAA'', ''0xaa'')] = [[(''0xAA'', ''0xaa'')]]"
    by (simp add: slices.simps dexBatchSize_def)
  have u1: "dexUniq (dexRequests asciiPlatform [''0xAA'', ''0xaa '']) = [(''0xAA'', ''0xaa'')]"
    by (simp add: dexUniq_def dexRequests_def ascii_defs)
  have y: "yieldsNoPrice asciiPlatform [] [''0xaa'', ''0xbb'']"
    "\<not> yieldsNoPrice asciiPlatform [exPairA] [''0xaa'']"
    by (simp_all add: yieldsNoPrice_def pricedFor_def pairOf_def addrKey_def exPairA_def
        ascii_defs)
  have p: "pRetry (dexTokensBatch emptyUpstream ks) (retriesOf None) = Inr []"
    "pRetry (dexTokensBatch pairUpstream ks) (retriesOf None) = Inr [exPairA]" for ks
    by (simp_all add: up_defs retriesOf_def numeral_2_eq_2)
  have np: "set [''0xaa'', ''0xbb''] \<inter> protoKeys = {}" "set [''0xaa''] \<inter> protoKeys = {}"
    by (simp_all add: protoKeys_def)
  from adapters_deduplicate_keys [of asciiPlatform emptyUpstream ?keys None None None]
  have l: "snd ?run = dexExpectedCalls asciiPlatform emptyUpstream (retriesOf None)
         (slices (dexBatchSize None) (dexUniq (dexRequests asciiPlatform ?keys)))"
    and d: "distinct (map (toLowerCase asciiPlatform)
               (concat (map carried (groupedCalls (snd ?run)))))"
    and s: "\<forall>out. fst ?run = Inr out \<longrightarrow>
         set (map (toLowerCase asciiPlatform) (concat (map carried (groupedCalls (snd ?run)))))
         = {toLowerCase asciiPlatform (trim asciiPlatform k) | k.
              k \<in> set ?keys \<and> trim asciiPlatform k \<noteq> []}"
    by blast+
  from l have l': "snd ?run
       = [DexBatchGet [''0xAA'', ''0xBB''], DexSingleGet ''0xAA'', DexSingleGet ''0xBB'']"
    using y(1) np(1) by (simp add: u sl p)
  from adapters_deduplicate_keys [of asciiPlatform pairUpstream "[''0xAA'', ''0xaa '']" None None None]
  have "snd (fetchDexscreenerBatchByTokens asciiPlatform pairUpstream [''0xAA'', ''0xaa ''] None None)
     = dexExpectedCalls asciiPlatform pairUpstream (retriesOf None)
         (slices (dexBatchSize None) (dexUniq (dexRequests asciiPlatform [''0xAA'', ''0xaa ''])))"
    by blast
  then have l2: "snd (fetchDexscreenerBatchByTokens asciiPlatform pairUpstream [''0xAA'', ''0xaa '']
                        None None) = [DexBatchGet [''0xAA'']]"
    using y(2) np(2) by (simp add: u1 sl1 p)
  have ks: "{toLowerCase asciiPlatform (trim asciiPlatform k) | k.
              k \<in> set ?keys \<and> trim asciiPlatform k \<noteq> []} = {''0xaa'', ''0xbb''}"
    by (simp only: Collect_list) (simp add: ascii_defs insert_commute)
  from ok s have s': "set (map (toLowerCase asciiPlatform)
                         (concat (map carried (groupedCalls (snd ?run)))))
         = {''0xaa'', ''0xbb''}"
    unfolding ks by blast
  have c: "snd (fetchCmcBatchBySlugs asciiPlatform emptyUpstream [''Pepe'', ''pepe'', ''doge''] None)
       = [CmcLookup ''pepe'', CmcLookup ''doge'']"
    by (simp add: fetchCmcBatchBySlugs_def slugKeys_def uniqueInOrder_def cmcLoop.simps
        cmcConcurrency_def ascii_defs Let_def)
  from adapters_deduplicate_keys
    [of asciiPlatform emptyUpstream "[''Pepe'', ''pepe'', ''doge'']" None None None]
  have m: "distinct (concat (map carried
        (snd (fetchCmcBatchBySlugs asciiPlatform emptyUpstream [''Pepe'', ''pepe'', ''doge''] None))))"
    by blast
  from ok u l' y l2 d s' c m show ?thesis by (intro conjI)
qed

text \<open>
  The claim as first stated fails: when the grouped response holds no pair, the fallback
  looks the same address up a second time in the same invocation.
\<close>

theorem dexscreener_fallback_repeats_lookup:
  "snd (fetchDexscreenerBatchByTokens asciiPlatform emptyUpstream [''0xaa''] (Some 30) (Some 2))
     = [DexBatchGet [''0xaa''], DexSingleGet ''0xaa'']"
  by (simp add: dex_defs emptyUpstream_def numeral_2_eq_2)

lemma slices_31:
  assumes "length xs = 31"
  shows "slices 30 xs = [take 30 xs, drop 30 xs]"
proof -
  from assms have ne: "xs \<noteq> []" by auto
  from assms have ne2: "drop 30 xs \<noteq> []" by auto
  from assms have e: "drop 30 (drop 30 xs) = []" by simp
  from assms have t: "take 30 (drop 30 xs) = drop 30 xs" by simp
  have "slices 30 xs = take 30 xs # slices 30 (drop 30 xs)"
    using ne by (simp add: slices_step)
  also have "slices 30 (drop 30 xs) = take 30 (drop 30 xs) # slices 30 (drop 30 (drop 30 xs))"
    using ne2 by (rule slices_step) simp
  finally show ?thesis by (simp only: e t slices_Nil)
qed

lemma expected_carried_bound:
  "\<forall>ch \<in> set chs. length ch \<le> n \<Longrightarrow> 0 < n \<Longrightarrow> c \<in> set (dexExpectedCalls P w r chs) \<Longrightarrow>
     length (carried c) \<le> n"
  by (induction chs) (auto split: sum.splits if_splits)

text \<open>
  C8, as amended. The Dexscreener batch function sends at most 30 identifiers per upstream
  request, and for 31 distinct addresses with a maximal batch size of 30, whenever it
  returns a map, its grouped requests are exactly two, one with the first 30 addresses and
  one with the last, both answered; its requests are the first grouped request, then one
  single lookup for each of the 30 addresses exactly when the first response is empty or
  holds a priced pair for none of the 30 keys, then the second grouped request, then one
  single lookup for the last address exactly when the second response is empty or holds no
  priced pair for its key.
\<close>

theorem dexscreener_batches_of_thirty:
  "(\<forall>c \<in> set (snd (fetchDexscreenerBatchByTokens P w addresses b r)). length (carried c) \<le> 30)
   \<and> (length addresses = 31 \<and> distinct (map (\<lambda>a. toLowerCase P (trim P a)) addresses)
        \<and> [] \<notin> set (map (trim P) addresses) \<and> b = Some 30
        \<and> (\<exists>out. fst (fetchDexscreenerBatchByTokens P w addresses b r) = Inr out)
      \<longrightarrow> (\<exists>pairs1 pairs2.
             pRetry (dexTokensBatch w (map (trim P) (take 30 addresses))) (retriesOf r)
               = Inr pairs1
           \<and> pRetry (dexTokensBatch w (map (trim P) (drop 30 addresses))) (retriesOf r)
               = Inr pairs2
           \<and> snd (fetchDexscreenerBatchByTokens P w addresses b r)
               = DexBatchGet (map (trim P) (take 30 addresses))
                 # (if yieldsNoPrice P pairs1
                         (map (\<lambda>a. toLowerCase P (trim P a)) (take 30 addresses))
                    then map (\<lambda>a. DexSingleGet (trim P a)) (take 30 addresses) else [])
                 @ DexBatchGet (map (trim P) (drop 30 addresses))
                 # (if yieldsNoPrice P pairs2
                         (map (\<lambda>a. toLowerCase P (trim P a)) (drop 30 addresses))
                    then map (\<lambda>a. DexSingleGet (trim P a)) (drop 30 addresses) else [])
           \<and> groupedCalls (snd (fetchDexscreenerBatchByTokens P w addresses b r))
               = [DexBatchGet (map (trim P) (take 30 addresses)),
                  DexBatchGet (map (trim P) (drop 30 addresses))]))"
proof (intro conjI ballI impI)
  fix c assume c: "c \<in> set (snd (fetchDexscreenerBatchByTokens P w addresses b r))"
  let ?sl = "slices (dexBatchSize b) (dexUniq (dexRequests P addresses))"
  have "\<forall>ch \<in> set ?sl. length ch \<le> dexBatchSize b"
    using slices_bounds [OF dexBatchSize_pos(1)] by blast
  from expected_carried_bound [OF this dexBatchSize_pos(1) c [unfolded fetchDex_calls]]
    dexBatchSize_pos(2) [of b]
  show "length (carried c) \<le> 30" by simp
next
  assume h: "length addresses = 31 \<and> distinct (map (\<lambda>a. toLowerCase P (trim P a)) addresses)
        \<and> [] \<notin> set (map (trim P) addresses) \<and> b = Some 30
        \<and> (\<exists>out. fst (fetchDexscreenerBatchByTokens P w addresses b r) = Inr out)"
  define norm where "norm = (\<lambda>a. (trim P a, toLowerCase P (trim P a)))"
  define c1 where "c1 = map norm (take 30 addresses)"
  define c2 where "c2 = map norm (drop 30 addresses)"
  from h have "\<forall>a \<in> set addresses. trim P a \<noteq> []" by force
  then have req: "dexRequests P addresses = map norm addresses"
    by (auto simp: dexRequests_def filter_id_conv norm_def)
  have "distinct (map snd (dexRequests P addresses))"
    using h by (simp add: req comp_def norm_def)
  then have "dexUniq (dexRequests P addresses) = dexRequests P addresses"
    by (rule dexUniq_facts(4))
  then have uq: "dexUniq (dexRequests P addresses) = map norm addresses" by (simp add: req)
  have bs: "dexBatchSize b = 30" using h by (simp add: dexBatchSize_def)
  have sl: "slices (dexBatchSize b) (dexUniq (dexRequests P addresses)) = [c1, c2]"
    unfolding bs uq c1_def c2_def using h slices_31 [of "map norm addresses"]
    by (simp add: take_map drop_map)
  have f1: "map fst c1 = map (trim P) (take 30 addresses)"
    "map snd c1 = map (\<lambda>a. toLowerCase P (trim P a)) (take 30 addresses)"
    "map (\<lambda>c. DexSingleGet (fst c)) c1 = map (\<lambda>a. DexSingleGet (trim P a)) (take 30 addresses)"
    by (simp_all add: c1_def norm_def comp_def)
  have f2: "map fst c2 = map (trim P) (drop 30 addresses)"
    "map snd c2 = map (\<lambda>a. toLowerCase P (trim P a)) (drop 30 addresses)"
    "map (\<lambda>c. DexSingleGet (fst c)) c2 = map (\<lambda>a. DexSingleGet (trim P a)) (drop 30 addresses)"
    by (simp_all add: c2_def norm_def comp_def)
  from h obtain out where ok: "fst (fetchDexscreenerBatchByTokens P w addresses b r) = Inr out"
    by blast
  from fetchDex_result(4) [OF ok] obtain pairs1 pairs2 where
    p1: "pRetry (dexTokensBatch w (map fst c1)) (retriesOf r) = Inr pairs1"
    and p2: "pRetry (dexTokensBatch w (map fst c2)) (retriesOf r) = Inr pairs2"
    unfolding sl by auto
  have "set (map snd c1) \<union> set (map snd c2) = snd ` set (dexUniq (dexRequests P addresses))"
    unfolding uq c1_def c2_def
    by (simp only: set_map [symmetric] map_map [symmetric] take_map [symmetric]
        drop_map [symmetric] set_append [symmetric] append_take_drop_id)
  with fetchDex_result(1) [OF ok]
  have np: "set (map snd c1) \<inter> protoKeys = {}" "set (map snd c2) \<inter> protoKeys = {}"
    by blast+
  have log: "snd (fetchDexscreenerBatchByTokens P w addresses b r)
      = DexBatchGet (map fst c1)
        # (if yieldsNoPrice P pairs1 (map snd c1) then map (\<lambda>c. DexSingleGet (fst c)) c1 else [])
        @ DexBatchGet (map fst c2)
        # (if yieldsNoPrice P pairs2 (map snd c2) then map (\<lambda>c. DexSingleGet (fst c)) c2 else [])"
    unfolding fetchDex_calls sl using p1 p2 np by simp
  have grp: "groupedCalls (snd (fetchDexscreenerBatchByTokens P w addresses b r))
      = [DexBatchGet (map fst c1), DexBatchGet (map fst c2)]"
    unfolding log by simp
  from p1 p2 log grp
  show "\<exists>pairs1 pairs2.
             pRetry (dexTokensBatch w (map (trim P) (take 30 addresses))) (retriesOf r)
               = Inr pairs1
           \<and> pRetry (dexTokensBatch w (map (trim P) (drop 30 addresses))) (retriesOf r)
               = Inr pairs2
           \<and> snd (fetchDexscreenerBatchByTokens P w addresses b r)
               = DexBatchGet (map (trim P) (take 30 addresses))
                 # (if yieldsNoPrice P pairs1
                         (map (\<lambda>a. toLowerCase P (trim P a)) (take 30 addresses))
                    then map (\<lambda>a. DexSingleGet (trim P a)) (take 30 addresses) else [])
                 @ DexBatchGet (map (trim P) (drop 30 addresses))
                 # (if yieldsNoPrice P pairs2
                         (map (\<lambda>a. toLowerCase P (trim P a)) (drop 30 addresses))
                    then map (\<lambda>a. DexSingleGet (trim P a)) (drop 30 addresses) else [])
           \<and> groupedCalls (snd (fetchDexscreenerBatchByTokens P w addresses b r))
               = [DexBatchGet (map (trim P) (take 30 addresses)),
                  DexBatchGet (map (trim P) (drop 30 addresses))]"
    unfolding f1 f2 by blast
qed

lemma ex31_facts:
  "length ex31 = 31"
  "distinct (map (\<lambda>a. toLowerCase asciiPlatform (trim asciiPlatform a)) ex31)"
  "[] \<notin> set (map (trim asciiPlatform) ex31)"
  "map (trim asciiPlatform) (take 30 ex31) = take 30 ex31"
  "map (trim asciiPlatform) (drop 30 ex31) = [''4'']"
  "map (\<lambda>a. DexSingleGet (trim asciiPlatform a)) (drop 30 ex31) = [DexSingleGet ''4'']"
  by (simp_all add: ex31_def ascii_defs)

lemma ex31_singles:
  "map (\<lambda>a. DexSingleGet (trim asciiPlatform a)) (take 30 ex31) = map DexSingleGet (take 30 ex31)"
  by (simp add: ex31_def ascii_defs)

lemma ex31_ok:
  "\<exists>out. fst (fetchDexscreenerBatchByTokens asciiPlatform emptyUpstream ex31 (Some 30) (Some 2))
           = Inr out"
proof -
  have "(case fst (fetchDexscreenerBatchByTokens asciiPlatform emptyUpstream ex31 (Some 30)
                     (Some 2)) of
           Inl e \<Rightarrow> False | Inr out \<Rightarrow> True)"
    by code_simp
  then show ?thesis by (auto split: sum.splits)
qed

text \<open>Thirty-one addresses on a network whose responses hold no pair.\<close>

theorem dexscreener_batches_of_thirty_witness:
  "length ex31 = 31
   \<and> distinct (map (\<lambda>a. toLowerCase asciiPlatform (trim asciiPlatform a)) ex31)
   \<and> [] \<notin> set (map (trim asciiPlatform) ex31)
   \<and> (\<exists>out. fst (fetchDexscreenerBatchByTokens asciiPlatform emptyUpstream ex31 (Some 30)
                   (Some 2)) = Inr out)
   \<and> snd (fetchDexscreenerBatchByTokens asciiPlatform emptyUpstream ex31 (Some 30) (Some 2))
       = DexBatchGet (take 30 ex31) # map DexSingleGet (take 30 ex31)
         @ [DexBatchGet [''4''], DexSingleGet ''4'']
   \<and> groupedCalls (snd (fetchDexscreenerBatchByTokens asciiPlatform emptyUpstream ex31 (Some 30)
                           (Some 2)))
       = [DexBatchGet (take 30 ex31), DexBatchGet [''4'']]"
proof -
  let ?run = "fetchDexscreenerBatchByTokens asciiPlatform emptyUpstream ex31 (Some 30) (Some 2)"
  have p: "pRetry (dexTokensBatch emptyUpstream ks) (retriesOf (Some 2)) = Inr []" for ks
    by (simp add: emptyUpstream_def retriesOf_def numeral_2_eq_2)
  have y: "yieldsNoPrice asciiPlatform [] ks" for ks by (simp add: yieldsNoPrice_def)
  from dexscreener_batches_of_thirty [of asciiPlatform emptyUpstream ex31 "Some 30" "Some 2"]
    ex31_facts(1,2,3) ex31_ok
  obtain pairs1 pairs2 where
    "pRetry (dexTokensBatch emptyUpstream (map (trim asciiPlatform) (take 30 ex31)))
       (retriesOf (Some 2)) = Inr pairs1"
    "pRetry (dexTokensBatch emptyUpstream (map (trim asciiPlatform) (drop 30 ex31)))
       (retriesOf (Some 2)) = Inr pairs2"
    and l: "snd ?run
               = DexBatchGet (map (trim asciiPlatform) (take 30 ex31))
                 # (if yieldsNoPrice asciiPlatform pairs1
                         (map (\<lambda>a. toLowerCase asciiPlatform (trim asciiPlatform a)) (take 30 ex31))
                    then map (\<lambda>a. DexSingleGet (trim asciiPlatform a)) (take 30 ex31) else [])
                 @ DexBatchGet (map (trim asciiPlatform) (drop 30 ex31))
                 # (if yieldsNoPrice asciiPlatform pairs2
                         (map (\<lambda>a. toLowerCase asciiPlatform (trim asciiPlatform a)) (drop 30 ex31))
                    then map (\<lambda>a. DexSingleGet (trim asciiPlatform a)) (drop 30 ex31) else [])"
    and g: "groupedCalls (snd ?run)
               = [DexBatchGet (map (trim asciiPlatform) (take 30 ex31)),
                  DexBatchGet (map (trim asciiPlatform) (drop 30 ex31))]"
    by blast
  then have e: "pairs1 = []" "pairs2 = []" by (simp_all add: p)
  from l have l': "snd ?run = DexBatchGet (take 30 ex31) # map DexSingleGet (take 30 ex31)
         @ [DexBatchGet [''4''], DexSingleGet ''4'']"
    by (simp only: e y if_True ex31_facts ex31_singles)
  from g have g': "groupedCalls (snd ?run) = [DexBatchGet (take 30 ex31), DexBatchGet [''4'']]"
    by (simp only: ex31_facts)
  from ex31_facts(1,2,3) ex31_ok l' g' show ?thesis by (intro conjI)
qed

text \<open>
  The claim as first stated fails on that run: with the 31 single lookups of the fallback
  the function issues 33 upstream requests, not 2.
\<close>

theorem dexscreener_fallback_counterexample:
  "length ex31 = 31
   \<and> length (snd (fetchDexscreenerBatchByTokens asciiPlatform emptyUpstream ex31 (Some 30)
                    (Some 2))) = 33"
  by code_simp

text \<open>When every response prices an address of its sub-batch, the requests are two.\<close>

lemma dexscreener_two_requests:
  "snd (fetchDexscreenerBatchByTokens asciiPlatform headUpstream ex31 (Some 30) (Some 2))
     = [DexBatchGet (take 30 ex31), DexBatchGet [''4'']]"
  by code_simp

section \<open>The pipeline on the vendor adapters\<close>

text \<open>
  The properties of the pipeline above hold for all adapters, hence for the three batch
  functions of the vendor modules. One run through them: a token with a CoinGecko slug,
  unknown to Dexscreener, is priced by CoinGecko after one grouped request and one
  fallback lookup at Dexscreener.
\<close>

lemma fetchAllPrices_vendor_example:
  "fetchDexscreenerBatchByTokens asciiPlatform pepeUpstream [''0xAA''] (Some 30) (Some 2)
     = (Inr \<lparr> own = [''0xaa'' \<mapsto> None], inherits = True \<rparr>,
        [DexBatchGet [''0xAA''], DexSingleGet ''0xAA''])
   \<and> fetchAllPrices asciiPlatform (vendorAdapters asciiPlatform pepeUpstream) Map.empty ''now''
        [exTokPepe]
     = ([Some \<lparr> chain = ''eth'', address = ''0xaa'', symbol = None,
                priceUsd = Some (Num (1 / 100000)), source = Some Coingecko, at_iso = ''now'' \<rparr>],
        [DexscreenerCall [''0xAA''], CoingeckoCall [''pepe'']])"
proof -
  have d: "fetchDexscreenerBatchByTokens asciiPlatform pepeUpstream [''0xAA''] (Some 30) (Some 2)
     = (Inr \<lparr> own = [''0xaa'' \<mapsto> None], inherits = True \<rparr>,
        [DexBatchGet [''0xAA''], DexSingleGet ''0xAA''])"
    by (simp add: dex_defs pepeUpstream_def numeral_2_eq_2 sortBy_def)
  have c: "fetchCoingeckoBatchByIds asciiPlatform pepeUpstream [''pepe''] (Some 150) (Some 2)
     = Some (\<lparr> own = [''pepe'' \<mapsto> Some (Num (1 / 100000))], inherits = True \<rparr>,
             [CoingeckoGet [''pepe'']])"
    by (simp add: fetchCoingeckoBatchByIds_def chunk_slices coingeckoBatchSize_pos slugKeys_def
      uniqueInOrder_def prefill_def coingeckoPart_def retriesOf_def pepeUpstream_def
      slices.simps coingeckoBatchSize_def numberOf_def js_defs ascii_defs Let_def numeral_2_eq_2)
  have a: "dexscreenerBatch (vendorAdapters asciiPlatform pepeUpstream) [''0xAA'']
             = Some \<lparr> own = [''0xaa'' \<mapsto> None], inherits = True \<rparr>"
    "coingeckoBatch (vendorAdapters asciiPlatform pepeUpstream) [''pepe'']
             = Some \<lparr> own = [''pepe'' \<mapsto> Some (Num (1 / 100000))], inherits = True \<rparr>"
    by (simp_all add: vendorAdapters_def d c)
  have "fetchAllPrices asciiPlatform A Map.empty ''now'' [exTokPepe]
     = ([Some \<lparr> chain = ''eth'', address = ''0xaa'', symbol = None,
                priceUsd = Some (Num (1 / 100000)), source = Some Coingecko, at_iso = ''now'' \<rparr>],
        [DexscreenerCall [''0xAA''], CoingeckoCall [''pepe'']])"
    if "dexscreenerBatch A [''0xAA''] = Some \<lparr> own = [''0xaa'' \<mapsto> None], inherits = True \<rparr>"
      and "coingeckoBatch A [''pepe'']
             = Some \<lparr> own = [''pepe'' \<mapsto> Some (Num (1 / 100000))], inherits = True \<rparr>" for A
    using that by (simp add: run_defs exTokPepe_def upt_rec)
  from this [OF a] d show ?thesis by simp
qed

text \<open>
  A cached token and a token of address \<open>constructor\<close>, on a network where every request
  fails: the Dexscreener call is made for the second token alone and fails, the pipeline
  looks the address up in the empty object it takes instead and finds the inherited
  property, and CoinGecko is not asked for the token's slug.
\<close>

lemma inherited_key_after_failed_call:
  "fetchAllPrices asciiPlatform (vendorAdapters asciiPlatform failingUpstream) exCache ''now''
     [exTokA, exTokCtor]
   = ([Some exCached,
       Some \<lparr> chain = ''eth'', address = ''constructor'', symbol = None,
              priceUsd = Some (Inherited ''constructor''), source = Some Dexscreener,
              at_iso = ''now'' \<rparr>],
      [DexscreenerCall [''constructor'']])"
proof -
  have d: "fst (fetchDexscreenerBatchByTokens asciiPlatform failingUpstream [''constructor'']
                  (Some 30) (Some 2)) = Inl RequestFailed"
    by (simp add: dex_defs failingUpstream_def numeral_2_eq_2)
  have a: "dexscreenerBatch (vendorAdapters asciiPlatform failingUpstream) [''constructor''] = None"
    by (simp add: vendorAdapters_def d)
  have "fetchAllPrices asciiPlatform A exCache ''now'' [exTokA, exTokCtor]
   = ([Some exCached,
       Some \<lparr> chain = ''eth'', address = ''constructor'', symbol = None,
              priceUsd = Some (Inherited ''constructor''), source = Some Dexscreener,
              at_iso = ''now'' \<rparr>],
      [DexscreenerCall [''constructor'']])"
    if "dexscreenerBatch A [''constructor''] = None" for A
    using that by (simp add: run_defs ex_defs upt_rec)
  from this [OF a] show ?thesis .
qed

text \<open>
  A price that is the string \<open>0\<close>: the single lookup returns the number zero, and the
  fallback stores it.
\<close>

lemma zero_string_price:
  "fetchDexscreenerPrice asciiPlatform zeroUpstream 0 ''0xaa'' = Inr (Some 0)
   \<and> fetchDexscreenerBatchByTokens asciiPlatform zeroUpstream [''0xaa''] (Some 30) (Some 2)
     = (Inr \<lparr> own = [''0xaa'' \<mapsto> Some (Num 0)], inherits = True \<rparr>,
        [DexBatchGet [''0xaa''], DexSingleGet ''0xaa''])"
  by (simp add: dex_defs zeroUpstream_def exPairZ_def sortBy_def decimalNumber_def isDigit_def
      numeral_2_eq_2)

end
